theory Spec2Isabelle
  imports Complex_Main "HOL-Library.AList" "HOL-Library.Sublist"
begin

section \<open>JavaScript primitives used by the sources\<close>

text \<open>
  Strings are lists of code units. Only the code units 0..255 are representable
  (\<^typ>\<open>char\<close> has eight bits), so the model covers Latin-1 text; the primitives below
  follow ECMAScript on that range.

  An object is the association list of its own properties in insertion order,
  together with its prototype where that can differ: the objects of this program
  have \<open>Object.prototype\<close> as prototype, except a projected row whose prototype the
  \<open>__proto__\<close> setter has set to \<open>null\<close>. Reading a name that is not an own property
  gives the member inherited from \<open>Object.prototype\<close> (as the engine defines it, with
  nothing added to it by other code).
\<close>

definition dquote :: char where
  "dquote = CHR 0x22"

definition comma :: char where
  "comma = CHR '',''"

definition LF :: char where
  "LF = CHR 0x0A"

definition CR :: char where
  "CR = CHR 0x0D"

text \<open>WhiteSpace and LineTerminator code units below 256 (what \<open>trim\<close> strips).\<close>

definition isWhiteSpace :: "char \<Rightarrow> bool" where
  "isWhiteSpace c = (c \<in> set [CHR 0x09, CHR 0x0A, CHR 0x0B, CHR 0x0C, CHR 0x0D, CHR 0x20, CHR 0xA0])"

definition trim :: "string \<Rightarrow> string" where
  "trim s = rev (dropWhile isWhiteSpace (rev (dropWhile isWhiteSpace s)))"

definition lowerChar :: "char \<Rightarrow> char" where
  "lowerChar c =
     (let n = (of_char c :: nat)
      in if (65 \<le> n \<and> n \<le> 90) \<or> (192 \<le> n \<and> n \<le> 222 \<and> n \<noteq> 215)
         then char_of (n + 32) else c)"

definition toLowerCase :: "string \<Rightarrow> string" where
  "toLowerCase s = map lowerChar s"

fun startsWith :: "string \<Rightarrow> string \<Rightarrow> bool" where
  "startsWith s [] = True"
| "startsWith [] (t # ts) = False"
| "startsWith (c # cs) (t # ts) = (c = t \<and> startsWith cs ts)"

fun str_includes :: "string \<Rightarrow> string \<Rightarrow> bool" where
  "str_includes [] t = (t = [])"
| "str_includes (c # cs) t = (startsWith (c # cs) t \<or> str_includes cs t)"

definition isDigit :: "char \<Rightarrow> bool" where
  "isDigit c = (c \<in> set ''0123456789'')"

subsection \<open>Numbers\<close>

text \<open>
  A Number is NaN, an infinity or a finite binary64 value, held as the rational it
  denotes (the sign of zero is not kept: no operation used here observes it).
  \<open>round_double\<close> is IEEE 754 round-to-nearest, ties-to-even, into binary64.
\<close>

datatype jsnum = NaN | NegInf | Fin rat | PosInf

definition ipow :: "rat \<Rightarrow> int \<Rightarrow> rat" where
  "ipow b e = (if 0 \<le> e then b ^ nat e else 1 / b ^ nat (- e))"

function ndigits :: "int \<Rightarrow> int \<Rightarrow> int" where
  "ndigits b n = (if n \<le> 0 \<or> b < 2 then 0 else ndigits b (n div b) + 1)"
  by pat_completeness auto
termination
  by (relation "measure (\<lambda>(b, n). nat n)") (auto intro!: div_less_dividend pos_imp_zdiv_pos_iff[THEN iffD2] simp: zdiv_mono2 int_div_less_self)

declare ndigits.simps [simp del]

text \<open>For \<open>0 < x\<close> and \<open>2 \<le> b\<close>: the integer \<open>n\<close> with \<open>b ^ (n - 1) \<le> x < b ^ n\<close>.\<close>

definition magnitude :: "int \<Rightarrow> rat \<Rightarrow> int" where
  "magnitude b x =
     (let (p, q) = quotient_of x;
          d = ndigits b p - ndigits b q
      in if ipow (of_int b) d \<le> x then d + 1 else d)"

definition round_half_even :: "rat \<Rightarrow> int" where
  "round_half_even q =
     (let f = \<lfloor>q\<rfloor>; r = q - of_int f
      in if r < 1 / 2 then f else if 1 / 2 < r then f + 1 else if even f then f else f + 1)"

definition round_double :: "rat \<Rightarrow> jsnum" where
  "round_double q =
     (if q = 0 then Fin 0
      else let a = \<bar>q\<bar>;
               e = max (magnitude 2 a - 1) (- 1022);
               u = ipow 2 (e - 52);
               v = of_int (round_half_even (a / u)) * u
           in if ipow 2 1024 \<le> v then (if q < 0 then NegInf else PosInf)
              else Fin (if q < 0 then - v else v))"

fun js_lt :: "jsnum \<Rightarrow> jsnum \<Rightarrow> bool" where
  "js_lt NaN _ = False"
| "js_lt _ NaN = False"
| "js_lt PosInf _ = False"
| "js_lt _ NegInf = False"
| "js_lt NegInf _ = True"
| "js_lt _ PosInf = True"
| "js_lt (Fin a) (Fin b) = (a < b)"

definition js_gt :: "jsnum \<Rightarrow> jsnum \<Rightarrow> bool" where
  "js_gt a b = js_lt b a"

definition js_le :: "jsnum \<Rightarrow> jsnum \<Rightarrow> bool" where
  "js_le a b = (a \<noteq> NaN \<and> b \<noteq> NaN \<and> \<not> js_lt b a)"

definition js_ge :: "jsnum \<Rightarrow> jsnum \<Rightarrow> bool" where
  "js_ge a b = js_le b a"

fun js_mul :: "jsnum \<Rightarrow> jsnum \<Rightarrow> jsnum" where
  "js_mul (Fin a) (Fin b) = round_double (a * b)"
| "js_mul NaN _ = NaN"
| "js_mul _ NaN = NaN"
| "js_mul (Fin a) PosInf = (if a = 0 then NaN else if a < 0 then NegInf else PosInf)"
| "js_mul (Fin a) NegInf = (if a = 0 then NaN else if a < 0 then PosInf else NegInf)"
| "js_mul PosInf (Fin b) = (if b = 0 then NaN else if b < 0 then NegInf else PosInf)"
| "js_mul NegInf (Fin b) = (if b = 0 then NaN else if b < 0 then PosInf else NegInf)"
| "js_mul PosInf PosInf = PosInf"
| "js_mul NegInf NegInf = PosInf"
| "js_mul PosInf NegInf = NegInf"
| "js_mul NegInf PosInf = NegInf"

definition isNaN :: "jsnum \<Rightarrow> bool" where
  "isNaN x = (x = NaN)"

subsection \<open>String to Number (ECMAScript StringToNumber)\<close>

definition isHexDigit :: "char \<Rightarrow> bool" where
  "isHexDigit c = (c \<in> set ''0123456789abcdefABCDEF'')"

definition isOctalDigit :: "char \<Rightarrow> bool" where
  "isOctalDigit c = (c \<in> set ''01234567'')"

definition isBinaryDigit :: "char \<Rightarrow> bool" where
  "isBinaryDigit c = (c \<in> set ''01'')"

definition digitVal :: "char \<Rightarrow> int" where
  "digitVal c =
     (let n = (of_char c :: int)
      in if isDigit c then n - 48 else if 97 \<le> n then n - 87 else n - 55)"

definition digitsVal :: "int \<Rightarrow> string \<Rightarrow> int" where
  "digitsVal b ds = foldl (\<lambda>a c. a * b + digitVal c) 0 ds"

text \<open>NonDecimalIntegerLiteral after its two-character prefix.\<close>

definition parseRadix :: "int \<Rightarrow> (char \<Rightarrow> bool) \<Rightarrow> string \<Rightarrow> jsnum" where
  "parseRadix b ok ds =
     (if ds \<noteq> [] \<and> list_all ok ds then round_double (of_int (digitsVal b ds)) else NaN)"

text \<open>
  StrUnsignedDecimalLiteral other than \<open>Infinity\<close>: digits, an optional fraction, an
  optional exponent; at least one digit before the exponent. The result is the
  mathematical value of the literal.
\<close>

definition StrUnsignedDecimalLiteral :: "string \<Rightarrow> rat option" where
  "StrUnsignedDecimalLiteral s =
     (let ip = takeWhile isDigit s;
          r1 = dropWhile isDigit s;
          hasDot = (take 1 r1 = ''.'');
          fp = (if hasDot then takeWhile isDigit (drop 1 r1) else []);
          r2 = (if hasDot then dropWhile isDigit (drop 1 r1) else r1);
          m = of_int (digitsVal 10 (ip @ fp));
          sc = - int (length fp)
      in if ip = [] \<and> fp = [] then None
         else if r2 = [] then Some (m * ipow 10 sc)
         else if take 1 r2 = ''e'' \<or> take 1 r2 = ''E'' then
           (let r3 = drop 1 r2;
                neg = (take 1 r3 = ''-'');
                ds = (if take 1 r3 = ''+'' \<or> neg then drop 1 r3 else r3);
                ex = (if neg then - digitsVal 10 ds else digitsVal 10 ds)
            in if ds \<noteq> [] \<and> list_all isDigit ds then Some (m * ipow 10 (ex + sc)) else None)
         else None)"

definition StringToNumber :: "string \<Rightarrow> jsnum" where
  "StringToNumber s =
     (let t = trim s
      in if t = [] then Fin 0
         else if take 2 t = ''0x'' \<or> take 2 t = ''0X'' then parseRadix 16 isHexDigit (drop 2 t)
         else if take 2 t = ''0o'' \<or> take 2 t = ''0O'' then parseRadix 8 isOctalDigit (drop 2 t)
         else if take 2 t = ''0b'' \<or> take 2 t = ''0B'' then parseRadix 2 isBinaryDigit (drop 2 t)
         else
           (let neg = (take 1 t = ''-'');
                u = (if take 1 t = ''+'' \<or> neg then drop 1 t else t)
            in if u = ''Infinity'' then (if neg then NegInf else PosInf)
               else (case StrUnsignedDecimalLiteral u of
                       None \<Rightarrow> NaN
                     | Some q \<Rightarrow> round_double (if neg then - q else q))))"

subsection \<open>Number to String (ECMAScript Number::toString, radix 10)\<close>

definition digitChar :: "int \<Rightarrow> char" where
  "digitChar d = char_of (48 + d)"

function decimalDigits :: "int \<Rightarrow> string" where
  "decimalDigits n = (if n < 10 then [digitChar n] else decimalDigits (n div 10) @ [digitChar (n mod 10)])"
  by pat_completeness auto
termination
  by (relation "measure nat") (auto simp: int_div_less_self)

declare decimalDigits.simps [simp del]

text \<open>
  The pairs \<open>(s, n)\<close> with \<open>k\<close> digits in \<open>s\<close> such that \<open>s * 10 ^ (n - k)\<close> rounds to
  the binary64 value \<open>x\<close> (\<open>0 < x\<close>).
\<close>

definition candidates :: "rat \<Rightarrow> int \<Rightarrow> (int \<times> int) list" where
  "candidates x k =
     (let n0 = magnitude 10 x
      in concat (map (\<lambda>n.
           let s0 = \<lfloor>x / ipow 10 (n - k)\<rfloor>
           in filter (\<lambda>(s, n). 10 ^ nat (k - 1) \<le> s \<and> s < 10 ^ nat k \<and>
                               round_double (of_int s * ipow 10 (n - k)) = Fin x)
                [(s0, n), (s0 + 1, n)]) [n0, n0 + 1]))"

definition closer :: "rat \<Rightarrow> int \<Rightarrow> int \<times> int \<Rightarrow> int \<times> int \<Rightarrow> bool" where
  "closer x k c b =
     (let d = \<bar>of_int (fst c) * ipow 10 (snd c - k) - x\<bar>;
          d' = \<bar>of_int (fst b) * ipow 10 (snd b - k) - x\<bar>
      in d < d' \<or> (d = d' \<and> even (fst c)))"

fun shortest :: "rat \<Rightarrow> int list \<Rightarrow> (int \<times> int \<times> int) option" where
  "shortest x [] = None"
| "shortest x (k # ks) =
     (case candidates x k of
        [] \<Rightarrow> shortest x ks
      | c # cs \<Rightarrow> Some (k, fold (\<lambda>c b. if closer x k c b then c else b) cs c))"

definition formatDigits :: "int \<Rightarrow> int \<Rightarrow> int \<Rightarrow> string" where
  "formatDigits k s n =
     (let ds = decimalDigits s
      in if k \<le> n \<and> n \<le> 21 then ds @ replicate (nat (n - k)) CHR ''0''
         else if 0 < n \<and> n \<le> 21 then take (nat n) ds @ ''.'' @ drop (nat n) ds
         else if - 6 < n \<and> n \<le> 0 then ''0.'' @ replicate (nat (- n)) CHR ''0'' @ ds
         else
           (let e = n - 1;
                es = (if e < 0 then ''-'' else ''+'') @ decimalDigits \<bar>e\<bar>
            in if k = 1 then ds @ ''e'' @ es
               else take 1 ds @ ''.'' @ drop 1 ds @ ''e'' @ es))"

text \<open>
  For a positive binary64 value some \<open>k \<le> 17\<close> has a candidate; the last branch only
  makes the function total on rationals that are no binary64 value.
\<close>

definition positiveToString :: "rat \<Rightarrow> string" where
  "positiveToString x =
     (case shortest x [1, 2, 3, 4, 5, 6, 7, 8, 9, 10, 11, 12, 13, 14, 15, 16, 17] of
        Some (k, s, n) \<Rightarrow> formatDigits k s n
      | None \<Rightarrow> formatDigits 17 \<lfloor>x / ipow 10 (magnitude 10 x - 17)\<rfloor> (magnitude 10 x))"

fun NumberToString :: "jsnum \<Rightarrow> string" where
  "NumberToString NaN = ''NaN''"
| "NumberToString PosInf = ''Infinity''"
| "NumberToString NegInf = ''-Infinity''"
| "NumberToString (Fin x) =
     (if x = 0 then ''0'' else if x < 0 then ''-'' @ positiveToString (- x) else positiveToString x)"

subsection \<open>Values\<close>

text \<open>
  The scalar values a stored record holds (it comes from JSON). \<open>JsonNum q\<close> is a
  JSON number of value \<open>q\<close>.
\<close>

datatype json = JsonNull | JsonBool bool | JsonNum rat | JsonStr string

text \<open>
  The values the program meets at run time. \<open>JNum q\<close> is the binary64 value nearest
  to \<open>q\<close>; \<open>JUndefined\<close> is what reading an absent property gives; \<open>JProto\<close> is the
  object \<open>Object.prototype\<close>; \<open>JNative n\<close> is the built-in function named \<open>n\<close> that
  \<open>Object.prototype\<close> holds.
\<close>

datatype jsval = JUndefined | JNull | JBool bool | JNum rat | JStr string | JProto | JNative string

fun ofJson :: "json \<Rightarrow> jsval" where
  "ofJson JsonNull = JNull"
| "ofJson (JsonBool b) = JBool b"
| "ofJson (JsonNum q) = JNum q"
| "ofJson (JsonStr s) = JStr s"

text \<open>
  \<open>String(v)\<close>. A built-in function is printed the way V8 prints it (ECMAScript
  leaves the spacing of \<open>[native code]\<close> to the engine).
\<close>

fun ToString :: "jsval \<Rightarrow> string" where
  "ToString JUndefined = ''undefined''"
| "ToString JNull = ''null''"
| "ToString (JBool b) = (if b then ''true'' else ''false'')"
| "ToString (JNum q) = NumberToString (round_double q)"
| "ToString (JStr s) = s"
| "ToString JProto = ''[object Object]''"
| "ToString (JNative n) = ''function '' @ n @ ''() { [native code] }''"

text \<open>
  \<open>Number(v)\<close>. An object is first turned into the string \<open>String\<close> gives, which is
  no numeric literal for \<open>Object.prototype\<close> and for a function.
\<close>

fun ToNumber :: "jsval \<Rightarrow> jsnum" where
  "ToNumber JUndefined = NaN"
| "ToNumber JNull = Fin 0"
| "ToNumber (JBool b) = (if b then Fin 1 else Fin 0)"
| "ToNumber (JNum q) = round_double q"
| "ToNumber (JStr s) = StringToNumber s"
| "ToNumber JProto = NaN"
| "ToNumber (JNative n) = NaN"

text \<open>\<open>v ?? d\<close>\<close>

fun nullish :: "jsval \<Rightarrow> jsval \<Rightarrow> jsval" where
  "nullish JUndefined d = d"
| "nullish JNull d = d"
| "nullish v d = v"

text \<open>\<open>typeof v === "string"\<close>\<close>

fun isString :: "jsval \<Rightarrow> bool" where
  "isString (JStr s) = True"
| "isString v = False"

subsection \<open>Objects\<close>

type_synonym 'v jsobject = "(string \<times> 'v) list"

text \<open>
  What \<open>o[k]\<close> gives when \<open>k\<close> is no own property of \<open>o\<close> and \<open>o\<close> has
  \<open>Object.prototype\<close> as prototype: the getter of \<open>__proto__\<close> returns the prototype,
  \<open>constructor\<close> is the function \<open>Object\<close>, ten more names are built-in functions, and
  every other name is absent.
\<close>

definition prototypeFunctions :: "string list" where
  "prototypeFunctions =
     [''__defineGetter__'', ''__defineSetter__'', ''hasOwnProperty'', ''__lookupGetter__'',
      ''__lookupSetter__'', ''isPrototypeOf'', ''propertyIsEnumerable'', ''toString'',
      ''valueOf'', ''toLocaleString'']"

definition inherited :: "string \<Rightarrow> jsval" where
  "inherited k =
     (if k = ''__proto__'' then JProto
      else if k = ''constructor'' then JNative ''Object''
      else if k \<in> set prototypeFunctions then JNative k
      else JUndefined)"

text \<open>\<open>row[k]\<close> on a stored record (an object parsed from JSON).\<close>

definition obj_get :: "json jsobject \<Rightarrow> string \<Rightarrow> jsval" where
  "obj_get ob k = (case map_of ob k of None \<Rightarrow> inherited k | Some v \<Rightarrow> ofJson v)"

text \<open>
  A \<open>Record<string, unknown>\<close> as the executor returns it and the serialiser reads
  it: its own properties, and whether its prototype is \<open>Object.prototype\<close> (otherwise
  \<open>null\<close>).
\<close>

record RecordObject =
  props :: "jsval jsobject"
  objectProto :: bool

text \<open>\<open>row[k]\<close> on such a record.\<close>

definition record_get :: "RecordObject \<Rightarrow> string \<Rightarrow> jsval" where
  "record_get ob k =
     (case map_of (props ob) k of
        Some v \<Rightarrow> v
      | None \<Rightarrow> if objectProto ob then inherited k else JUndefined)"

text \<open>
  \<open>Object.keys(o)\<close>: the array indices (canonical numeric strings below \<open>2^32 - 1\<close>) in
  ascending order, then the other names in insertion order.
\<close>

definition isArrayIndex :: "string \<Rightarrow> bool" where
  "isArrayIndex k =
     (k \<noteq> [] \<and> list_all isDigit k \<and> (k = ''0'' \<or> take 1 k \<noteq> ''0'') \<and>
      length k \<le> 10 \<and> digitsVal 10 k < 4294967295)"

definition obj_keys :: "'v jsobject \<Rightarrow> string list" where
  "obj_keys ob =
     sort_key (digitsVal 10) (filter isArrayIndex (map fst ob)) @
     filter (\<lambda>k. \<not> isArrayIndex k) (map fst ob)"

text \<open>\<open>xs.join(sep)\<close> on an array of strings\<close>

fun join :: "string \<Rightarrow> string list \<Rightarrow> string" where
  "join sep [] = []"
| "join sep [x] = x"
| "join sep (x # y # ys) = x @ sep @ join sep (y # ys)"

section \<open>CSV parsing and serialisation (\<open>src/unnamed/part_001\<close>)\<close>

datatype detected_type = Type_string | Type_number | Type_boolean | Type_date

record ColumnInfo =
  name :: string
  detectedType :: detected_type
  sampleValues :: "string list"

record ParsedCSV =
  headers :: "string list"
  rows :: "string jsobject list"
  columns :: "ColumnInfo list"
  totalRows :: nat

text \<open>
  The two \<open>throw new Error(...)\<close> of \<open>parseCSVContent\<close>: \<open>"CSV file is empty"\<close> and
  \<open>"CSV must have headers"\<close>; and the \<open>TypeError\<close> the engine throws when a method
  is called that the value does not have.
\<close>

datatype csv_error = EmptyInputError | MissingHeaderError | TypeError

subsection \<open>\<open>detectType\<close>\<close>

text \<open>
  The three date patterns are anchored sequences of bounded digit runs and literal
  characters; \<open>regex_test p v\<close> is \<open>p.test(v)\<close> for such a pattern.
\<close>

datatype regex_item = Digits nat nat | Lit char

fun regex_test :: "regex_item list \<Rightarrow> string \<Rightarrow> bool" where
  "regex_test [] s = True"
| "regex_test (Lit c # p) s = (case s of [] \<Rightarrow> False | x # xs \<Rightarrow> x = c \<and> regex_test p xs)"
| "regex_test (Digits lo hi # p) s =
     list_ex (\<lambda>k. k \<le> length s \<and> list_all isDigit (take k s) \<and> regex_test p (drop k s))
       [lo ..< Suc hi]"

definition datePatterns :: "regex_item list list" where
  "datePatterns =
     [[Digits 4 4, Lit CHR ''-'', Digits 2 2, Lit CHR ''-'', Digits 2 2],
      [Digits 1 2, Lit CHR ''/'', Digits 1 2, Lit CHR ''/'', Digits 2 4],
      [Digits 1 2, Lit CHR ''-'', Digits 1 2, Lit CHR ''-'', Digits 2 4]]"

definition boolValues :: "string list" where
  "boolValues = [''true'', ''false'', ''yes'', ''no'', ''1'', ''0'']"

definition detectType :: "string list \<Rightarrow> detected_type" where
  "detectType values =
     (let nonEmpty = filter (\<lambda>v. trim v \<noteq> []) values
      in if length nonEmpty = 0 then Type_string
         else if list_all (\<lambda>v. toLowerCase v \<in> set boolValues) nonEmpty then Type_boolean
         else if list_all (\<lambda>v. \<not> isNaN (ToNumber (JStr v)) \<and> trim v \<noteq> []) nonEmpty then Type_number
         else if js_gt
                   (Fin (of_nat (length (filter (\<lambda>v. list_ex (\<lambda>p. regex_test p v) datePatterns) nonEmpty))))
                   (js_mul (Fin (of_nat (length nonEmpty))) (round_double (7 / 10)))
              then Type_date
         else Type_string)"

text \<open>
  The call \<open>detectType(sampleValues)\<close> on run-time values. The parameter is declared
  \<open>string[]\<close>, and the first statement calls \<open>v.trim()\<close> on every value: a value that
  is no string has no such method, and the call throws.
\<close>

definition detectType_on :: "jsval list \<Rightarrow> csv_error + detected_type" where
  "detectType_on values =
     (if list_all isString values then Inr (detectType (map ToString values)) else Inl TypeError)"

subsection \<open>\<open>parseCSVContent\<close>\<close>

text \<open>\<open>content.split(/\r?\n/)\<close>; \<open>cur\<close> is the piece being collected.\<close>

fun split_loop :: "string \<Rightarrow> string \<Rightarrow> string list" where
  "split_loop [] cur = [cur]"
| "split_loop (c # cs) cur =
     (if c = LF then cur # split_loop cs []
      else if c = CR \<and> take 1 cs = [LF] then cur # split_loop (drop 1 cs) []
      else split_loop cs (cur @ [c]))"

definition split_lines :: "string \<Rightarrow> string list" where
  "split_lines content = split_loop content []"

text \<open>
  The loop of \<open>parseLine\<close> over the characters still to read: \<open>result\<close>, \<open>current\<close>
  and \<open>inQuotes\<close> are the source's variables; the escaped quote skips one more
  character (\<open>i++\<close>).
\<close>

fun parseLine_loop :: "string \<Rightarrow> string list \<Rightarrow> string \<Rightarrow> bool \<Rightarrow> string list" where
  "parseLine_loop [] result current inQuotes = result @ [trim current]"
| "parseLine_loop (c # cs) result current inQuotes =
     (if c = dquote then
        (if inQuotes \<and> take 1 cs = [dquote]
         then parseLine_loop (drop 1 cs) result (current @ [dquote]) inQuotes
         else parseLine_loop cs result current (\<not> inQuotes))
      else if c = comma \<and> \<not> inQuotes then parseLine_loop cs (result @ [trim current]) [] inQuotes
      else parseLine_loop cs result (current @ [c]) inQuotes)"

definition parseLine :: "string \<Rightarrow> string list" where
  "parseLine line = parseLine_loop line [] [] False"

text \<open>\<open>values[idx] ?? ""\<close>: reading past the end of the array gives \<open>undefined\<close>.\<close>

definition cellAt :: "string list \<Rightarrow> nat \<Rightarrow> string" where
  "cellAt values idx = (if idx < length values then values ! idx else [])"

text \<open>
  \<open>row[h] = v\<close> on a row of strings: an existing property keeps its place, a new one
  is added last; for \<open>__proto__\<close> the assignment reaches the setter of
  \<open>Object.prototype\<close>, which ignores a string, so no property is made.
\<close>

definition row_set :: "string jsobject \<Rightarrow> string \<Rightarrow> string \<Rightarrow> string jsobject" where
  "row_set row h v = (if h = ''__proto__'' then row else AList.update h v row)"

text \<open>\<open>headers.forEach((h, idx) => { row[h] = values[idx] ?? ""; })\<close>\<close>

fun forEach_header :: "string list \<Rightarrow> nat \<Rightarrow> string list \<Rightarrow> string jsobject \<Rightarrow> string jsobject" where
  "forEach_header [] idx values row = row"
| "forEach_header (h # hs) idx values row =
     forEach_header hs (Suc idx) values (row_set row h (cellAt values idx))"

text \<open>\<open>r[name]\<close> on a row of strings.\<close>

definition row_get :: "string jsobject \<Rightarrow> string \<Rightarrow> jsval" where
  "row_get r k = (case map_of r k of None \<Rightarrow> inherited k | Some v \<Rightarrow> JStr v)"

text \<open>The results of \<open>xs.map(f)\<close> when \<open>f\<close> can throw: the first throw ends the map.\<close>

fun collect :: "('e + 'a) list \<Rightarrow> 'e + 'a list" where
  "collect [] = Inr []"
| "collect (Inl e # rs) = Inl e"
| "collect (Inr x # rs) = (case collect rs of Inl e \<Rightarrow> Inl e | Inr xs \<Rightarrow> Inr (x # xs))"

definition parseCSVContent :: "string \<Rightarrow> csv_error + ParsedCSV" where
  "parseCSVContent content =
     (let lines = filter (\<lambda>l. trim l \<noteq> []) (split_lines content)
      in case lines of
           [] \<Rightarrow> Inl EmptyInputError
         | first # rest \<Rightarrow>
             (let headers = parseLine first
              in if length headers = 0 \<or> list_all (\<lambda>h. h = []) headers then Inl MissingHeaderError
                 else
                   (let rows = map (\<lambda>l. forEach_header headers 0 (parseLine l) []) rest;
                        sampleSize = min (length rows) 100
                    in case collect (map (\<lambda>name.
                              let sampleValues =
                                    map (\<lambda>r. nullish (row_get r name) (JStr [])) (take sampleSize rows)
                              in case detectType_on sampleValues of
                                   Inl e \<Rightarrow> Inl e
                                 | Inr t \<Rightarrow>
                                     Inr \<lparr>name = name, detectedType = t,
                                          sampleValues = take 5 (map ToString sampleValues)\<rparr>)
                            headers) of
                         Inl e \<Rightarrow> Inl e
                       | Inr cols \<Rightarrow>
                           Inr \<lparr>headers = headers, rows = rows, columns = cols,
                                totalRows = length rows\<rparr>)))"

subsection \<open>\<open>generateCSVContent\<close>\<close>

text \<open>\<open>val.replace(/"/g, '""')\<close>\<close>

definition replaceQuotes :: "string \<Rightarrow> string" where
  "replaceQuotes v = concat (map (\<lambda>c. if c = dquote then [dquote, dquote] else [c]) v)"

definition generateCSVContent :: "RecordObject list \<Rightarrow> string list option \<Rightarrow> string" where
  "generateCSVContent rs cs =
     (if length rs = 0 then []
      else
        (let cols = (case cs of Some c \<Rightarrow> c | None \<Rightarrow> obj_keys (props (hd rs)));
             header = join [comma] (map (\<lambda>c. [dquote] @ c @ [dquote]) cols);
             dataLines = map (\<lambda>row.
               join [comma] (map (\<lambda>c.
                 let val = ToString (nullish (record_get row c) (JStr []))
                 in [dquote] @ replaceQuotes val @ [dquote]) cols)) rs
         in join [LF] (header # dataLines)))"

text \<open>A field as a data line holds it: quoted, with its quotes doubled.\<close>

definition quoteField :: "string \<Rightarrow> string" where
  "quoteField v = [dquote] @ replaceQuotes v @ [dquote]"

text \<open>A parsed row seen as a \<open>Record<string, unknown>\<close>: the same object.\<close>

definition asRecord :: "string jsobject \<Rightarrow> RecordObject" where
  "asRecord r = \<lparr>props = map (\<lambda>(k, v). (k, JStr v)) r, objectProto = True\<rparr>"

section \<open>Query plan execution (\<open>executeQueryPlan\<close> in \<open>src/src/pages/DatasetsPage.tsx\<close>)\<close>

text \<open>
  \<open>operator\<close> is the string that arrives at run time (the source's \<open>switch\<close> has a
  \<open>default\<close> branch); \<open>fvalue\<close> is the source's field \<open>value\<close>.
\<close>

record QueryFilter =
  column :: string
  operator :: string
  fvalue :: jsval

record QueryPlan =
  dataset_ids :: "string list"
  filters :: "QueryFilter list"
  columns :: "string list option"
  limit :: "int option"

text \<open>
  What the awaited store query gives back: \<open>{ data, error }\<close>, each element of
  \<open>data\<close> an object with the one selected field \<open>data\<close>.
\<close>

record SelectedRow =
  data :: "json jsobject"

record 'e QueryResponse =
  data :: "SelectedRow list option"
  error :: "'e option"

text \<open>The callback of \<open>rows.filter\<close> for one filter.\<close>

definition filterRow :: "QueryFilter \<Rightarrow> json jsobject \<Rightarrow> bool" where
  "filterRow f row =
     (let val = toLowerCase (ToString (nullish (obj_get row (column f)) (JStr [])));
          target = toLowerCase (ToString (fvalue f))
      in if operator f = ''equals'' then val = target
         else if operator f = ''contains'' then str_includes val target
         else if operator f = ''starts_with'' then startsWith val target
         else if operator f = ''gt'' then js_gt (ToNumber (obj_get row (column f))) (ToNumber (fvalue f))
         else if operator f = ''lt'' then js_lt (ToNumber (obj_get row (column f))) (ToNumber (fvalue f))
         else if operator f = ''gte'' then js_ge (ToNumber (obj_get row (column f))) (ToNumber (fvalue f))
         else if operator f = ''lte'' then js_le (ToNumber (obj_get row (column f))) (ToNumber (fvalue f))
         else True)"

text \<open>\<open>for (const filter of plan.filters) rows = rows.filter(...)\<close>\<close>

definition applyFilters :: "QueryFilter list \<Rightarrow> json jsobject list \<Rightarrow> json jsobject list" where
  "applyFilters fs rs = fold (\<lambda>f rs'. filter (filterRow f) rs') fs rs"

text \<open>
  \<open>filtered[c] = row[c]\<close>. An own property of \<open>filtered\<close> is overwritten in place and
  a new one is added last. The name \<open>__proto__\<close> is no own property while \<open>filtered\<close>
  has \<open>Object.prototype\<close>: the assignment then reaches the setter, which makes the
  value the prototype when it is \<open>null\<close> or an object and ignores it otherwise; and
  \<open>row["__proto__"]\<close> is the stored value, or \<open>Object.prototype\<close> itself when the row
  stores none.
\<close>

definition projectAssign :: "json jsobject \<Rightarrow> string \<Rightarrow> RecordObject \<Rightarrow> RecordObject" where
  "projectAssign row c filtered =
     (if c = ''__proto__'' \<and> objectProto filtered \<and> map_of (props filtered) c = None
      then (case map_of row c of
              Some JsonNull \<Rightarrow> filtered\<lparr>objectProto := False\<rparr>
            | _ \<Rightarrow> filtered)
      else filtered\<lparr>props := AList.update c (obj_get row c) (props filtered)\<rparr>)"

text \<open>\<open>plan.columns!.forEach((c) => { filtered[c] = row[c]; })\<close> from \<open>{}\<close>\<close>

definition projectRow :: "string list \<Rightarrow> json jsobject \<Rightarrow> RecordObject" where
  "projectRow cols row = fold (projectAssign row) cols \<lparr>props = [], objectProto = True\<rparr>"

text \<open>A stored record seen as a \<open>Record<string, unknown>\<close>: the same object.\<close>

definition jsonRecord :: "json jsobject \<Rightarrow> RecordObject" where
  "jsonRecord r = \<lparr>props = map (\<lambda>(k, v). (k, ofJson v)) r, objectProto = True\<rparr>"

text \<open>\<open>if (plan.columns?.length)\<close>\<close>

definition columnsGiven :: "QueryPlan \<Rightarrow> bool" where
  "columnsGiven plan = (case QueryPlan.columns plan of None \<Rightarrow> False | Some cs \<Rightarrow> length cs \<noteq> 0)"

text \<open>
  One dataset's rows once fetched: the \<open>data\<close> fields, filtered, then projected
  when columns are given.
\<close>

definition datasetRows :: "QueryPlan \<Rightarrow> 'e QueryResponse \<Rightarrow> RecordObject list" where
  "datasetRows plan resp =
     (let rs = map SelectedRow.data (case QueryResponse.data resp of None \<Rightarrow> [] | Some d \<Rightarrow> d);
          rs = applyFilters (filters plan) rs
      in if columnsGiven plan then map (projectRow (the (QueryPlan.columns plan))) rs
         else map jsonRecord rs)"

text \<open>\<open>plan.limit ?? 200\<close>\<close>

definition fetchLimit :: "QueryPlan \<Rightarrow> int" where
  "fetchLimit plan = (case limit plan of None \<Rightarrow> 200 | Some n \<Rightarrow> n)"

text \<open>
  The loop over \<open>plan.dataset_ids\<close>. \<open>fetch datasetId n\<close> is the awaited query for
  that dataset with \<open>.limit(n)\<close>; a response with an error ends the run with it.
\<close>

fun executeQueryPlan_loop ::
  "(string \<Rightarrow> int \<Rightarrow> 'e QueryResponse) \<Rightarrow> QueryPlan \<Rightarrow> string list \<Rightarrow> RecordObject list
     \<Rightarrow> 'e + RecordObject list" where
  "executeQueryPlan_loop fetch plan [] allResults = Inr allResults"
| "executeQueryPlan_loop fetch plan (datasetId # ids) allResults =
     (let resp = fetch datasetId (fetchLimit plan)
      in case error resp of
           Some e \<Rightarrow> Inl e
         | None \<Rightarrow> executeQueryPlan_loop fetch plan ids (allResults @ datasetRows plan resp))"

definition executeQueryPlan ::
  "(string \<Rightarrow> int \<Rightarrow> 'e QueryResponse) \<Rightarrow> QueryPlan \<Rightarrow> 'e + RecordObject list" where
  "executeQueryPlan fetch plan = executeQueryPlan_loop fetch plan (dataset_ids plan) []"

section \<open>Auxiliary definitions for the statements\<close>

text \<open>The lines \<open>parseCSVContent\<close> keeps: those that are not blank.\<close>

definition nonblankLines :: "string \<Rightarrow> string list" where
  "nonblankLines content = filter (\<lambda>l. trim l \<noteq> []) (split_lines content)"

text \<open>The rows \<open>parseCSVContent\<close> builds from the data lines.\<close>

definition rowsOf :: "string list \<Rightarrow> string list \<Rightarrow> string jsobject list" where
  "rowsOf hs ls = map (\<lambda>l. forEach_header hs 0 (parseLine l) []) ls"

text \<open>The string \<open>String(r[name] ?? "")\<close> for a row of strings.\<close>

definition cell :: "string jsobject \<Rightarrow> string \<Rightarrow> string" where
  "cell r k = ToString (nullish (row_get r k) (JStr []))"

text \<open>
  The value \<open>parseCSVContent\<close> returns for given headers and rows when no column's
  type detection throws.
\<close>

definition assemble :: "string list \<Rightarrow> string jsobject list \<Rightarrow> ParsedCSV" where
  "assemble hs rs =
     \<lparr>headers = hs, rows = rs,
      columns = map (\<lambda>name.
          let sampleValues = map (\<lambda>r. cell r name) (take (min (length rs) 100) rs)
          in \<lparr>name = name, detectedType = detectType sampleValues, sampleValues = take 5 sampleValues\<rparr>) hs,
      totalRows = length rs\<rparr>"

text \<open>The header line and a data line of \<open>generateCSVContent\<close> for rows of strings.\<close>

definition headerLine :: "string list \<Rightarrow> string" where
  "headerLine hs = join [comma] (map (\<lambda>c. [dquote] @ c @ [dquote]) hs)"

definition dataLine :: "string list \<Rightarrow> string jsobject \<Rightarrow> string" where
  "dataLine hs r = join [comma] (map (\<lambda>c. quoteField (cell r c)) hs)"

section \<open>Properties of the filter engine\<close>

lemma applyFilters_Nil: "applyFilters [] rs = rs"
  by (simp add: applyFilters_def)

lemma applyFilters_Cons: "applyFilters (f # fs) rs = applyFilters fs (filter (filterRow f) rs)"
  by (simp add: applyFilters_def)

lemma applyFilters_conj: "applyFilters fs rs = filter (\<lambda>r. list_all (\<lambda>f. filterRow f r) fs) rs"
proof (induction fs arbitrary: rs)
  case Nil
  show ?case by (simp add: applyFilters_Nil)
next
  case (Cons f fs)
  have "applyFilters (f # fs) rs = filter (\<lambda>r. list_all (\<lambda>g. filterRow g r) fs) (filter (filterRow f) rs)"
    by (simp only: applyFilters_Cons Cons.IH)
  also have "\<dots> = filter (\<lambda>r. list_all (\<lambda>g. filterRow g r) (f # fs)) rs"
    by (simp add: conj_commute)
  finally show ?case .
qed

text \<open>
  C9: for every filter list \<open>F\<close> and record sequence \<open>R\<close>, applying the filters gives a
  subsequence of \<open>R\<close> (members of \<open>R\<close>, relative order kept, never longer), and the
  empty filter list gives \<open>R\<close> back. The filters act as a conjunction: a row survives
  exactly when every filter accepts it.
\<close>

theorem applyFilters_subsequence:
  "subseq (applyFilters F R) R \<and> set (applyFilters F R) \<subseteq> set R \<and>
   length (applyFilters F R) \<le> length R \<and> applyFilters [] R = R \<and>
   applyFilters F R = filter (\<lambda>r. list_all (\<lambda>f. filterRow f r) F) R"
proof -
  have eq: "applyFilters F R = filter (\<lambda>r. list_all (\<lambda>f. filterRow f r) F) R"
    by (rule applyFilters_conj)
  have "subseq (applyFilters F R) R"
    unfolding eq by (rule subseq_filter_left)
  moreover have "set (applyFilters F R) \<subseteq> set R"
    unfolding eq by (rule filter_is_subset)
  moreover have "length (applyFilters F R) \<le> length R"
    unfolding eq by (rule length_filter_le)
  ultimately show ?thesis
    using eq by (simp add: applyFilters_Nil)
qed

lemma filterRow_default:
  assumes "operator f \<notin> {''equals'', ''contains'', ''starts_with'', ''gt'', ''lt'', ''gte'', ''lte''}"
  shows "filterRow f row"
  using assms by (simp add: filterRow_def Let_def)

text \<open>
  C7: a filter whose operator is none of the seven recognised ones accepts every row
  (the \<open>default\<close> branch): the row survives and nothing fails.
\<close>

theorem unrecognized_operator_passes:
  assumes "operator f \<notin> {''equals'', ''contains'', ''starts_with'', ''gt'', ''lt'', ''gte'', ''lte''}"
  shows "filterRow f row \<and> filter (filterRow f) rs = rs \<and> applyFilters [f] rs = rs"
proof -
  have all: "\<And>r. filterRow f r"
    using assms by (rule filterRow_default)
  then have "filter (filterRow f) rs = rs"
    by simp
  then show ?thesis
    using all by (simp add: applyFilters_Cons applyFilters_Nil)
qed

theorem unrecognized_operator_passes_witness:
  "operator \<lparr>column = ''state'', operator = ''between'', fvalue = JNum 1\<rparr>
     \<notin> {''equals'', ''contains'', ''starts_with'', ''gt'', ''lt'', ''gte'', ''lte''} \<and>
   filterRow \<lparr>column = ''state'', operator = ''between'', fvalue = JNum 1\<rparr> [(''state'', JsonStr ''CO'')] \<and>
   applyFilters [\<lparr>column = ''state'', operator = ''between'', fvalue = JNum 1\<rparr>]
     [[(''state'', JsonStr ''CO'')], []] = [[(''state'', JsonStr ''CO'')], []]"
proof -
  have h: "operator \<lparr>column = ''state'', operator = ''between'', fvalue = JNum 1\<rparr>
     \<notin> {''equals'', ''contains'', ''starts_with'', ''gt'', ''lt'', ''gte'', ''lte''}"
    by simp
  show ?thesis
    using h unrecognized_operator_passes [OF h] by blast
qed


text \<open>
  C1 as stated fails: a row without the column is not read as the empty string by the
  relational operators. With filter \<open>x gte 0\<close> the empty row is rejected, while the
  comparison of \<open>Number("")\<close> with \<open>Number(0)\<close> holds.
\<close>

theorem relational_absent_value_counterexample:
  "map_of ([] :: json jsobject) ''x'' = None \<and>
   \<not> filterRow \<lparr>column = ''x'', operator = ''gte'', fvalue = JNum 0\<rparr> [] \<and>
   js_ge (ToNumber (JStr [])) (ToNumber (JNum 0))"
  by (simp add: filterRow_def obj_get_def inherited_def prototypeFunctions_def js_ge_def js_le_def
        StringToNumber_def trim_def round_double_def)

lemma js_NaN_compare:
  "\<not> js_gt NaN y" "\<not> js_lt NaN y" "\<not> js_ge NaN y" "\<not> js_le NaN y"
  by (simp_all add: js_gt_def js_ge_def js_le_def) (cases y; simp)+

text \<open>
  C1, amended: for the operators \<open>gt\<close>, \<open>lt\<close>, \<open>gte\<close>, \<open>lte\<close> the filter compares the
  numeric coercion of the row's value at the column, read as it is, with the numeric
  coercion of the filter value. A row with no value at the column coerces to NaN, and
  a NaN row value makes every relational comparison false: the row is excluded.
\<close>

theorem relational_filter_coercion:
  assumes "operator f \<in> {''gt'', ''lt'', ''gte'', ''lte''}"
  shows "filterRow f row =
           (let x = ToNumber (obj_get row (column f)); y = ToNumber (fvalue f)
            in if operator f = ''gt'' then js_gt x y
               else if operator f = ''lt'' then js_lt x y
               else if operator f = ''gte'' then js_ge x y
               else js_le x y) \<and>
         (map_of row (column f) = None \<longrightarrow> ToNumber (obj_get row (column f)) = NaN \<and> \<not> filterRow f row) \<and>
         (ToNumber (obj_get row (column f)) = NaN \<longrightarrow> \<not> filterRow f row)"
proof -
  have eq: "filterRow f row =
           (let x = ToNumber (obj_get row (column f)); y = ToNumber (fvalue f)
            in if operator f = ''gt'' then js_gt x y
               else if operator f = ''lt'' then js_lt x y
               else if operator f = ''gte'' then js_ge x y
               else js_le x y)"
    using assms by (auto simp: filterRow_def Let_def)
  have nan: "ToNumber (obj_get row (column f)) = NaN \<Longrightarrow> \<not> filterRow f row"
    unfolding eq by (simp add: Let_def js_NaN_compare)
  have absent: "map_of row (column f) = None \<Longrightarrow> ToNumber (obj_get row (column f)) = NaN"
    by (simp add: obj_get_def inherited_def)
  from eq nan absent show ?thesis
    by blast
qed

theorem relational_filter_coercion_witness:
  "operator \<lparr>column = ''x'', operator = ''gte'', fvalue = JNum 0\<rparr> \<in> {''gt'', ''lt'', ''gte'', ''lte''} \<and>
   map_of ([] :: json jsobject) (column \<lparr>column = ''x'', operator = ''gte'', fvalue = JNum 0\<rparr>) = None \<and>
   \<not> filterRow \<lparr>column = ''x'', operator = ''gte'', fvalue = JNum 0\<rparr> []"
proof -
  have h: "operator \<lparr>column = ''x'', operator = ''gte'', fvalue = JNum 0\<rparr> \<in> {''gt'', ''lt'', ''gte'', ''lte''}"
    by simp
  show ?thesis
    using h relational_filter_coercion [OF h, of "[]"] by (simp add: js_NaN_compare)
qed

section \<open>Properties of the plan executor\<close>

lemma executeQueryPlan_loop_find:
  "executeQueryPlan_loop fetch plan ids acc =
     (case find (\<lambda>d. error (fetch d (fetchLimit plan)) \<noteq> None) ids of
        Some d \<Rightarrow> Inl (the (error (fetch d (fetchLimit plan))))
      | None \<Rightarrow> Inr (acc @ concat (map (\<lambda>d. datasetRows plan (fetch d (fetchLimit plan))) ids)))"
proof (induction ids arbitrary: acc)
  case Nil
  show ?case by simp
next
  case (Cons d ids)
  show ?case
  proof (cases "error (fetch d (fetchLimit plan))")
    case None
    then show ?thesis
      by (simp add: Cons.IH Let_def split: option.split)
  next
    case (Some e)
    then show ?thesis
      by (simp add: Let_def)
  qed
qed

lemma executeQueryPlan_find:
  "executeQueryPlan fetch plan =
     (case find (\<lambda>d. error (fetch d (fetchLimit plan)) \<noteq> None) (dataset_ids plan) of
        Some d \<Rightarrow> Inl (the (error (fetch d (fetchLimit plan))))
      | None \<Rightarrow> Inr (concat (map (\<lambda>d. datasetRows plan (fetch d (fetchLimit plan))) (dataset_ids plan))))"
  by (simp add: executeQueryPlan_def executeQueryPlan_loop_find split: option.split)

lemma datasetRows_unfold:
  "datasetRows plan resp =
     (let fetched = map SelectedRow.data (case QueryResponse.data resp of None \<Rightarrow> [] | Some d \<Rightarrow> d);
          kept = filter (\<lambda>r. list_all (\<lambda>f. filterRow f r) (filters plan)) fetched
      in case QueryPlan.columns plan of
           None \<Rightarrow> map jsonRecord kept
         | Some cs \<Rightarrow> if cs = [] then map jsonRecord kept else map (projectRow cs) kept)"
  by (simp add: datasetRows_def columnsGiven_def applyFilters_conj Let_def split: option.splits)

lemma projectAssign_keeps:
  "map_of (props filtered) c = Some (obj_get row c) \<Longrightarrow>
   map_of (props (projectAssign row c' filtered)) c = Some (obj_get row c)"
  by (auto simp: projectAssign_def update_conv' split: option.splits json.splits)

lemma projectAssign_sets:
  "c \<noteq> ''__proto__'' \<Longrightarrow> map_of (props (projectAssign row c filtered)) c = Some (obj_get row c)"
  by (simp add: projectAssign_def update_conv')

lemma fold_projectAssign_lookup:
  "c \<noteq> ''__proto__'' \<Longrightarrow> c \<in> set cols \<or> map_of (props acc) c = Some (obj_get row c) \<Longrightarrow>
   map_of (props (fold (projectAssign row) cols acc)) c = Some (obj_get row c)"
proof (induction cols arbitrary: acc)
  case Nil
  then show ?case by simp
next
  case (Cons c' cols)
  have "map_of (props (projectAssign row c' acc)) c = Some (obj_get row c) \<or> c \<in> set cols"
  proof (cases "c' = c")
    case True
    then show ?thesis
      using Cons.prems(1) by (simp add: projectAssign_sets)
  next
    case False
    with Cons.prems(2) show ?thesis
      by (auto simp: projectAssign_keeps)
  qed
  then show ?case
    using Cons.IH [OF Cons.prems(1), of "projectAssign row c' acc"] by auto
qed

lemma projectAssign_keys:
  "fst ` set (props (projectAssign row c filtered)) \<subseteq> insert c (fst ` set (props filtered))"
  by (auto simp: projectAssign_def dom_update split: option.splits json.splits)

lemma fold_projectAssign_keys:
  "fst ` set (props (fold (projectAssign row) cols acc)) \<subseteq> fst ` set (props acc) \<union> set cols"
proof (induction cols arbitrary: acc)
  case Nil
  show ?case by simp
next
  case (Cons c cols)
  have "fst ` set (props (fold (projectAssign row) cols (projectAssign row c acc)))
          \<subseteq> fst ` set (props (projectAssign row c acc)) \<union> set cols"
    by (rule Cons.IH)
  also have "\<dots> \<subseteq> insert c (fst ` set (props acc)) \<union> set cols"
    using projectAssign_keys [of row c acc] by blast
  finally show ?case
    by auto
qed

lemma projectRow_lookup:
  "c \<in> set cs \<Longrightarrow> c \<noteq> ''__proto__'' \<Longrightarrow> map_of (props (projectRow cs row)) c = Some (obj_get row c)"
  by (simp add: projectRow_def fold_projectAssign_lookup)

lemma projectRow_keys: "fst ` set (props (projectRow cs row)) \<subseteq> set cs"
  using fold_projectAssign_keys [of row cs "\<lparr>props = [], objectProto = True\<rparr>"]
  by (simp add: projectRow_def)

lemma execute_example:
  "executeQueryPlan
     (\<lambda>d n. \<lparr>data = Some (if d = ''A''
                then [\<lparr>SelectedRow.data = [(''name'', JsonStr ''Acme''), (''state'', JsonStr ''CO'')]\<rparr>,
                      \<lparr>SelectedRow.data = [(''name'', JsonStr ''Bolt''), (''state'', JsonStr ''NY'')]\<rparr>]
                else [\<lparr>SelectedRow.data = [(''state'', JsonStr ''co''), (''name'', JsonStr ''Core''),
                                              (''size'', JsonNum 3)]\<rparr>]),
              error = (None :: unit option)\<rparr>)
     \<lparr>dataset_ids = [''A'', ''B''],
      filters = [\<lparr>column = ''state'', operator = ''equals'', fvalue = JStr ''co''\<rparr>],
      columns = Some [''name'', ''size''], limit = None\<rparr>
   = Inr [\<lparr>props = [(''name'', JStr ''Acme''), (''size'', JUndefined)], objectProto = True\<rparr>,
          \<lparr>props = [(''name'', JStr ''Core''), (''size'', JNum 3)], objectProto = True\<rparr>]"
  by code_simp

text \<open>
  C3: when every per-dataset fetch succeeds, \<open>executeQueryPlan\<close> returns the
  concatenation, in the order of \<open>plan.dataset_ids\<close>, of each dataset's rows: fetched
  with the bound \<open>plan.limit\<close> (200 when absent), then filtered (a row is kept when
  every filter accepts it), then projected when columns are given (a projected row
  has only requested keys, each with the value the row gives for it). Nothing is
  merged or deduplicated, and the bound is per fetch: with two dataset ids, no
  filters and limit 200, fetches of 3 and 2 rows give exactly those 5 rows, the first
  dataset's before the second's. The last part is a run with a filter and a
  projection: of the rows \<open>Acme/CO\<close>, \<open>Bolt/NY\<close> of dataset A and \<open>co/Core/3\<close> of
  dataset B, the filter \<open>state equals co\<close> and the columns \<open>name\<close>, \<open>size\<close> leave
  \<open>{name: Acme, size: undefined}\<close> and \<open>{name: Core, size: 3}\<close>.
\<close>

theorem execute_concatenates:
  "((\<forall>d \<in> set (dataset_ids plan). error (fetch d (fetchLimit plan)) = None) \<longrightarrow>
      executeQueryPlan fetch plan =
        Inr (concat (map (\<lambda>d. datasetRows plan (fetch d (fetchLimit plan))) (dataset_ids plan)))) \<and>
   fetchLimit plan = (case limit plan of None \<Rightarrow> 200 | Some n \<Rightarrow> n) \<and>
   datasetRows plan resp =
     (let fetched = map SelectedRow.data (case QueryResponse.data resp of None \<Rightarrow> [] | Some d \<Rightarrow> d);
          kept = filter (\<lambda>r. list_all (\<lambda>f. filterRow f r) (filters plan)) fetched
      in case QueryPlan.columns plan of
           None \<Rightarrow> map jsonRecord kept
         | Some cs \<Rightarrow> if cs = [] then map jsonRecord kept else map (projectRow cs) kept) \<and>
   (\<forall>c \<in> set cs. c \<noteq> ''__proto__'' \<longrightarrow> map_of (props (projectRow cs row)) c = Some (obj_get row c)) \<and>
   fst ` set (props (projectRow cs row)) \<subseteq> set cs \<and>
   (dataset_ids plan = [a, b] \<and> filters plan = [] \<and> limit plan = Some 200 \<and>
    QueryPlan.columns plan = None \<and>
    fetch a 200 = \<lparr>data = Some ra, error = None\<rparr> \<and>
    fetch b 200 = \<lparr>data = Some rb, error = None\<rparr> \<and> length ra = 3 \<and> length rb = 2 \<longrightarrow>
      executeQueryPlan fetch plan =
        Inr (map (\<lambda>r. jsonRecord (SelectedRow.data r)) ra @ map (\<lambda>r. jsonRecord (SelectedRow.data r)) rb) \<and>
      length (map (\<lambda>r. jsonRecord (SelectedRow.data r)) ra @ map (\<lambda>r. jsonRecord (SelectedRow.data r)) rb) = 5) \<and>
   executeQueryPlan
     (\<lambda>d n. \<lparr>data = Some (if d = ''A''
                then [\<lparr>SelectedRow.data = [(''name'', JsonStr ''Acme''), (''state'', JsonStr ''CO'')]\<rparr>,
                      \<lparr>SelectedRow.data = [(''name'', JsonStr ''Bolt''), (''state'', JsonStr ''NY'')]\<rparr>]
                else [\<lparr>SelectedRow.data = [(''state'', JsonStr ''co''), (''name'', JsonStr ''Core''),
                                              (''size'', JsonNum 3)]\<rparr>]),
              error = (None :: unit option)\<rparr>)
     \<lparr>dataset_ids = [''A'', ''B''],
      filters = [\<lparr>column = ''state'', operator = ''equals'', fvalue = JStr ''co''\<rparr>],
      columns = Some [''name'', ''size''], limit = None\<rparr>
   = Inr [\<lparr>props = [(''name'', JStr ''Acme''), (''size'', JUndefined)], objectProto = True\<rparr>,
          \<lparr>props = [(''name'', JStr ''Core''), (''size'', JNum 3)], objectProto = True\<rparr>]"
proof (intro conjI impI ballI)
  assume ok: "\<forall>d \<in> set (dataset_ids plan). error (fetch d (fetchLimit plan)) = None"
  then have "find (\<lambda>d. error (fetch d (fetchLimit plan)) \<noteq> None) (dataset_ids plan) = None"
    by (simp add: find_None_iff)
  then show "executeQueryPlan fetch plan =
        Inr (concat (map (\<lambda>d. datasetRows plan (fetch d (fetchLimit plan))) (dataset_ids plan)))"
    by (simp add: executeQueryPlan_find)
next
  show "fetchLimit plan = (case limit plan of None \<Rightarrow> 200 | Some n \<Rightarrow> n)"
    by (simp add: fetchLimit_def)
next
  show "datasetRows plan resp =
     (let fetched = map SelectedRow.data (case QueryResponse.data resp of None \<Rightarrow> [] | Some d \<Rightarrow> d);
          kept = filter (\<lambda>r. list_all (\<lambda>f. filterRow f r) (filters plan)) fetched
      in case QueryPlan.columns plan of
           None \<Rightarrow> map jsonRecord kept
         | Some cs \<Rightarrow> if cs = [] then map jsonRecord kept else map (projectRow cs) kept)"
    by (rule datasetRows_unfold)
next
  fix c
  assume "c \<in> set cs" "c \<noteq> ''__proto__''"
  then show "map_of (props (projectRow cs row)) c = Some (obj_get row c)"
    by (rule projectRow_lookup)
next
  show "fst ` set (props (projectRow cs row)) \<subseteq> set cs"
    by (rule projectRow_keys)
next
  assume h: "dataset_ids plan = [a, b] \<and> filters plan = [] \<and> limit plan = Some 200 \<and>
    QueryPlan.columns plan = None \<and>
    fetch a 200 = \<lparr>data = Some ra, error = None\<rparr> \<and>
    fetch b 200 = \<lparr>data = Some rb, error = None\<rparr> \<and> length ra = 3 \<and> length rb = 2"
  then have lim: "fetchLimit plan = 200"
    by (simp add: fetchLimit_def)
  from h show "executeQueryPlan fetch plan =
        Inr (map (\<lambda>r. jsonRecord (SelectedRow.data r)) ra @ map (\<lambda>r. jsonRecord (SelectedRow.data r)) rb)"
    by (simp add: executeQueryPlan_find lim datasetRows_unfold comp_def)
  from h show "length (map (\<lambda>r. jsonRecord (SelectedRow.data r)) ra @ map (\<lambda>r. jsonRecord (SelectedRow.data r)) rb) = 5"
    by simp
next
  show "executeQueryPlan
     (\<lambda>d n. \<lparr>data = Some (if d = ''A''
                then [\<lparr>SelectedRow.data = [(''name'', JsonStr ''Acme''), (''state'', JsonStr ''CO'')]\<rparr>,
                      \<lparr>SelectedRow.data = [(''name'', JsonStr ''Bolt''), (''state'', JsonStr ''NY'')]\<rparr>]
                else [\<lparr>SelectedRow.data = [(''state'', JsonStr ''co''), (''name'', JsonStr ''Core''),
                                              (''size'', JsonNum 3)]\<rparr>]),
              error = (None :: unit option)\<rparr>)
     \<lparr>dataset_ids = [''A'', ''B''],
      filters = [\<lparr>column = ''state'', operator = ''equals'', fvalue = JStr ''co''\<rparr>],
      columns = Some [''name'', ''size''], limit = None\<rparr>
   = Inr [\<lparr>props = [(''name'', JStr ''Acme''), (''size'', JUndefined)], objectProto = True\<rparr>,
          \<lparr>props = [(''name'', JStr ''Core''), (''size'', JNum 3)], objectProto = True\<rparr>]"
    by (rule execute_example)
qed

text \<open>
  Each dataset \<open>d\<close> holds the rows \<open>{state: CO, id: d}\<close> and \<open>{state: NY}\<close>. Under
  limit 1 each fetch gives the first row only; the filter \<open>state starts_with c\<close> keeps
  it and the column \<open>id\<close> leaves \<open>{id: d}\<close>: two rows in all, more than the limit.
  With no limit and no columns, the filter \<open>state starts_with n\<close> keeps the second
  row of each dataset.
\<close>

theorem execute_concatenates_witness:
  "list_all (\<lambda>d.
      error ((\<lambda>d n. \<lparr>data = Some (take (nat n)
                 [\<lparr>SelectedRow.data = [(''state'', JsonStr ''CO''), (''id'', JsonStr d)]\<rparr>,
                  \<lparr>SelectedRow.data = [(''state'', JsonStr ''NY'')]\<rparr>]),
               error = (None :: unit option)\<rparr>) d
        (fetchLimit \<lparr>dataset_ids = [''A'', ''B''],
                     filters = [\<lparr>column = ''state'', operator = ''starts_with'', fvalue = JStr ''c''\<rparr>],
                     columns = Some [''id''], limit = Some 1\<rparr>)) = None)
     (dataset_ids \<lparr>dataset_ids = [''A'', ''B''],
                   filters = [\<lparr>column = ''state'', operator = ''starts_with'', fvalue = JStr ''c''\<rparr>],
                   columns = Some [''id''], limit = Some 1\<rparr>) \<and>
   executeQueryPlan
     (\<lambda>d n. \<lparr>data = Some (take (nat n)
                 [\<lparr>SelectedRow.data = [(''state'', JsonStr ''CO''), (''id'', JsonStr d)]\<rparr>,
                  \<lparr>SelectedRow.data = [(''state'', JsonStr ''NY'')]\<rparr>]),
               error = (None :: unit option)\<rparr>)
     \<lparr>dataset_ids = [''A'', ''B''],
      filters = [\<lparr>column = ''state'', operator = ''starts_with'', fvalue = JStr ''c''\<rparr>],
      columns = Some [''id''], limit = Some 1\<rparr>
   = Inr [\<lparr>props = [(''id'', JStr ''A'')], objectProto = True\<rparr>,
          \<lparr>props = [(''id'', JStr ''B'')], objectProto = True\<rparr>] \<and>
   executeQueryPlan
     (\<lambda>d n. \<lparr>data = Some (take (nat n)
                 [\<lparr>SelectedRow.data = [(''state'', JsonStr ''CO''), (''id'', JsonStr d)]\<rparr>,
                  \<lparr>SelectedRow.data = [(''state'', JsonStr ''NY'')]\<rparr>]),
               error = (None :: unit option)\<rparr>)
     \<lparr>dataset_ids = [''A'', ''B''],
      filters = [\<lparr>column = ''state'', operator = ''starts_with'', fvalue = JStr ''n''\<rparr>],
      columns = None, limit = None\<rparr>
   = Inr [\<lparr>props = [(''state'', JStr ''NY'')], objectProto = True\<rparr>,
          \<lparr>props = [(''state'', JStr ''NY'')], objectProto = True\<rparr>]"
proof -
  let ?f = "\<lparr>column = ''state'', operator = ''starts_with'', fvalue = JStr ''c''\<rparr>"
  let ?g = "\<lparr>column = ''state'', operator = ''starts_with'', fvalue = JStr ''n''\<rparr>"
  let ?plan = "\<lparr>dataset_ids = [''A'', ''B''], filters = [?f], columns = Some [''id''], limit = Some 1\<rparr>"
  let ?plan2 = "\<lparr>dataset_ids = [''A'', ''B''], filters = [?g], columns = None, limit = None\<rparr>"
  let ?fetch = "\<lambda>d n. \<lparr>data = Some (take (nat n)
                 [\<lparr>SelectedRow.data = [(''state'', JsonStr ''CO''), (''id'', JsonStr d)]\<rparr>,
                  \<lparr>SelectedRow.data = [(''state'', JsonStr ''NY'')]\<rparr>]),
               error = (None :: unit option)\<rparr>"
  have ok: "\<forall>d \<in> set (dataset_ids ?plan). error (?fetch d (fetchLimit ?plan)) = None"
    by simp
  have ok2: "\<forall>d \<in> set (dataset_ids ?plan2). error (?fetch d (fetchLimit ?plan2)) = None"
    by simp
  have rowsA: "\<And>d. datasetRows ?plan (?fetch d (fetchLimit ?plan)) = [\<lparr>props = [(''id'', JStr d)], objectProto = True\<rparr>]"
    by code_simp
  have rowsB: "\<And>d. datasetRows ?plan2 (?fetch d (fetchLimit ?plan2)) = [\<lparr>props = [(''state'', JStr ''NY'')], objectProto = True\<rparr>]"
    by code_simp
  have "executeQueryPlan ?fetch ?plan =
        Inr (concat (map (\<lambda>d. datasetRows ?plan (?fetch d (fetchLimit ?plan))) (dataset_ids ?plan)))"
    using execute_concatenates [where plan = ?plan and fetch = ?fetch] ok by blast
  then have first: "executeQueryPlan ?fetch ?plan
      = Inr [\<lparr>props = [(''id'', JStr ''A'')], objectProto = True\<rparr>,
             \<lparr>props = [(''id'', JStr ''B'')], objectProto = True\<rparr>]"
    by (simp only: rowsA) simp
  have "executeQueryPlan ?fetch ?plan2 =
        Inr (concat (map (\<lambda>d. datasetRows ?plan2 (?fetch d (fetchLimit ?plan2))) (dataset_ids ?plan2)))"
    using execute_concatenates [where plan = ?plan2 and fetch = ?fetch] ok2 by blast
  then have second: "executeQueryPlan ?fetch ?plan2
      = Inr [\<lparr>props = [(''state'', JStr ''NY'')], objectProto = True\<rparr>,
             \<lparr>props = [(''state'', JStr ''NY'')], objectProto = True\<rparr>]"
    by (simp only: rowsB) simp
  from ok have "list_all (\<lambda>d. error (?fetch d (fetchLimit ?plan)) = None) (dataset_ids ?plan)"
    unfolding list_all_iff by blast
  with first second show ?thesis
    by blast
qed

lemma find_first_failure:
  "(\<forall>p \<in> set pre. \<not> P p) \<Longrightarrow> P d \<Longrightarrow> find P (pre @ d # post) = Some d"
  by (induction pre) auto

text \<open>
  C4: if the fetch for any dataset id of the plan fails, \<open>executeQueryPlan\<close> ends with
  an error of a failed fetch and returns no records; the error is that of the first
  failing dataset, whatever the earlier datasets had given.
\<close>

theorem fetch_failure_aborts:
  "(d \<in> set (dataset_ids plan) \<and> error (fetch d (fetchLimit plan)) \<noteq> None \<longrightarrow>
      (\<exists>d' e. d' \<in> set (dataset_ids plan) \<and> error (fetch d' (fetchLimit plan)) = Some e \<and>
              executeQueryPlan fetch plan = Inl e) \<and>
      (\<forall>out. executeQueryPlan fetch plan \<noteq> Inr out)) \<and>
   (dataset_ids plan = pre @ d # post \<and>
    (\<forall>p \<in> set pre. error (fetch p (fetchLimit plan)) = None) \<and>
    error (fetch d (fetchLimit plan)) = Some e \<longrightarrow>
      executeQueryPlan fetch plan = Inl e)"
proof (intro conjI impI)
  assume h: "d \<in> set (dataset_ids plan) \<and> error (fetch d (fetchLimit plan)) \<noteq> None"
  let ?P = "\<lambda>d. error (fetch d (fetchLimit plan)) \<noteq> None"
  from h have "find ?P (dataset_ids plan) \<noteq> None"
    by (auto simp: find_None_iff)
  then obtain d' where f: "find ?P (dataset_ids plan) = Some d'"
    by blast
  then have mem: "d' \<in> set (dataset_ids plan)" and bad: "?P d'"
    by (auto simp: find_Some_iff)
  from bad obtain e' where e': "error (fetch d' (fetchLimit plan)) = Some e'"
    by blast
  have res: "executeQueryPlan fetch plan = Inl e'"
    unfolding executeQueryPlan_find f using e' by simp
  from mem e' res
  show "\<exists>d' e. d' \<in> set (dataset_ids plan) \<and> error (fetch d' (fetchLimit plan)) = Some e \<and>
              executeQueryPlan fetch plan = Inl e"
    by blast
  from res show "\<forall>out. executeQueryPlan fetch plan \<noteq> Inr out"
    by simp
next
  assume h: "dataset_ids plan = pre @ d # post \<and>
    (\<forall>p \<in> set pre. error (fetch p (fetchLimit plan)) = None) \<and>
    error (fetch d (fetchLimit plan)) = Some e"
  then have "find (\<lambda>d. error (fetch d (fetchLimit plan)) \<noteq> None) (dataset_ids plan) = Some d"
    by (simp add: find_first_failure)
  then show "executeQueryPlan fetch plan = Inl e"
    unfolding executeQueryPlan_find using h by simp
qed

text \<open>The second of three datasets fails: the first one's rows are not returned.\<close>

theorem fetch_failure_aborts_witness:
  "dataset_ids \<lparr>dataset_ids = [''A'', ''B'', ''C''], filters = [], columns = None, limit = None\<rparr>
     = [''A''] @ ''B'' # [''C''] \<and>
   executeQueryPlan
     (\<lambda>d n. if d = ''B'' then \<lparr>data = None, error = Some ''timeout''\<rparr>
            else \<lparr>data = Some [\<lparr>SelectedRow.data = [(''id'', JsonStr d)]\<rparr>], error = None\<rparr>)
     \<lparr>dataset_ids = [''A'', ''B'', ''C''], filters = [], columns = None, limit = None\<rparr>
   = Inl ''timeout''"
proof -
  let ?plan = "\<lparr>dataset_ids = [''A'', ''B'', ''C''], filters = [], columns = None, limit = None\<rparr>"
  let ?fetch = "\<lambda>(d :: string) (n :: int). if d = ''B'' then \<lparr>data = None, error = Some ''timeout''\<rparr>
            else \<lparr>data = Some [\<lparr>SelectedRow.data = [(''id'', JsonStr d)]\<rparr>], error = None\<rparr>"
  have h: "dataset_ids ?plan = [''A''] @ ''B'' # [''C''] \<and>
    (\<forall>p \<in> set [''A'']. error (?fetch p (fetchLimit ?plan)) = None) \<and>
    error (?fetch ''B'' (fetchLimit ?plan)) = Some ''timeout''"
    by simp
  have "executeQueryPlan ?fetch ?plan = Inl ''timeout''"
    using fetch_failure_aborts [where plan = ?plan and fetch = ?fetch and pre = "[''A'']"
        and d = "''B''" and post = "[''C'']" and e = "''timeout''"] h
    by blast
  then show ?thesis
    by simp
qed

text \<open>
  C10: a plan whose \<open>columns\<close> is present but empty runs exactly as the same plan
  without \<open>columns\<close>: no projection, every record keeps all its keys.
\<close>

theorem empty_columns_skip_projection:
  assumes "QueryPlan.columns plan = Some []"
  shows "executeQueryPlan fetch plan = executeQueryPlan fetch (plan\<lparr>QueryPlan.columns := None\<rparr>) \<and>
         datasetRows plan resp =
           map jsonRecord
             (applyFilters (filters plan)
               (map SelectedRow.data (case QueryResponse.data resp of None \<Rightarrow> [] | Some d \<Rightarrow> d)))"
proof -
  have rows: "\<And>r :: 'a QueryResponse. datasetRows plan r = datasetRows (plan\<lparr>QueryPlan.columns := None\<rparr>) r"
    using assms by (simp add: datasetRows_unfold)
  have lim: "fetchLimit (plan\<lparr>QueryPlan.columns := None\<rparr>) = fetchLimit plan"
    by (simp add: fetchLimit_def)
  have ids: "dataset_ids (plan\<lparr>QueryPlan.columns := None\<rparr>) = dataset_ids plan"
    by simp
  have "executeQueryPlan fetch plan = executeQueryPlan fetch (plan\<lparr>QueryPlan.columns := None\<rparr>)"
    unfolding executeQueryPlan_find lim ids rows [symmetric] by (rule refl)
  moreover have "datasetRows plan resp =
           map jsonRecord
             (applyFilters (filters plan)
               (map SelectedRow.data (case QueryResponse.data resp of None \<Rightarrow> [] | Some d \<Rightarrow> d)))"
    using assms by (simp add: datasetRows_unfold applyFilters_conj)
  ultimately show ?thesis
    by simp
qed

theorem empty_columns_skip_projection_witness:
  "QueryPlan.columns \<lparr>dataset_ids = [''A''], filters = [], columns = Some [], limit = None\<rparr> = Some [] \<and>
   executeQueryPlan
     (\<lambda>d n. \<lparr>data = Some [\<lparr>SelectedRow.data = [(''name'', JsonStr ''Acme''), (''state'', JsonStr ''CO'')]\<rparr>],
              error = (None :: unit option)\<rparr>)
     \<lparr>dataset_ids = [''A''], filters = [], columns = Some [], limit = None\<rparr>
   = Inr [\<lparr>props = [(''name'', JStr ''Acme''), (''state'', JStr ''CO'')], objectProto = True\<rparr>]"
proof -
  let ?plan = "\<lparr>dataset_ids = [''A''], filters = [], columns = Some [], limit = None\<rparr>"
  let ?fetch = "\<lambda>(d :: string) (n :: int).
     \<lparr>data = Some [\<lparr>SelectedRow.data = [(''name'', JsonStr ''Acme''), (''state'', JsonStr ''CO'')]\<rparr>],
      error = (None :: unit option)\<rparr>"
  have h: "QueryPlan.columns ?plan = Some []"
    by simp
  have "executeQueryPlan ?fetch ?plan = executeQueryPlan ?fetch (?plan\<lparr>QueryPlan.columns := None\<rparr>)"
    using empty_columns_skip_projection [OF h, of ?fetch] by blast
  then show ?thesis
    by (simp add: executeQueryPlan_find fetchLimit_def datasetRows_unfold jsonRecord_def)
qed

section \<open>Properties of type detection\<close>

lemma detectType_dates_eval:
  "detectType [''2024-01-01'', ''2024-02-02'', ''x''] = Type_string \<and>
   length (filter (\<lambda>v. list_ex (\<lambda>p. regex_test p v) datePatterns) [''2024-01-01'', ''2024-02-02'', ''x'']) = 2 \<and>
   js_mul (Fin 3) (round_double (7 / 10)) = Fin (4728779608739020 / 2251799813685248) \<and>
   \<not> js_gt (Fin 2) (js_mul (Fin 3) (round_double (7 / 10)))"
  by code_simp

text \<open>
  C2 as stated fails: on \<open>["2024-01-01", "2024-02-02", "x"]\<close> the result is not \<open>date\<close>.
\<close>

theorem detectType_two_of_three_dates_counterexample:
  "detectType [''2024-01-01'', ''2024-02-02'', ''x''] \<noteq> Type_date"
  using detectType_dates_eval by simp

text \<open>
  C2, amended: \<open>detectType\<close> applied to \<open>["2024-01-01", "2024-02-02", "x"]\<close> returns
  \<open>string\<close>: two of the three values match a date pattern, and 2 is not greater than
  \<open>3 * 0.7\<close> (2.0999999999999996 in binary64).
\<close>

theorem detectType_two_of_three_dates:
  "detectType [''2024-01-01'', ''2024-02-02'', ''x''] = Type_string \<and>
   length (filter (\<lambda>v. list_ex (\<lambda>p. regex_test p v) datePatterns) [''2024-01-01'', ''2024-02-02'', ''x'']) = 2 \<and>
   js_mul (Fin 3) (round_double (7 / 10)) = Fin (4728779608739020 / 2251799813685248) \<and>
   \<not> js_gt (Fin 2) (js_mul (Fin 3) (round_double (7 / 10)))"
  by (rule detectType_dates_eval)

text \<open>
  C8 as stated fails on a sequence with no non-empty member: its non-empty members are
  all boolean words (there are none), and the result is \<open>string\<close>.
\<close>

theorem detectType_empty_counterexample:
  "list_all (\<lambda>v. toLowerCase v \<in> set boolValues) (filter (\<lambda>v. trim v \<noteq> []) []) \<and>
   detectType [] = Type_string \<and> detectType [] \<noteq> Type_boolean"
  by (simp add: detectType_def)

text \<open>
  C8, amended: for every value sequence with at least one non-empty member, if all
  its non-empty members are, case-insensitively, among \<open>true, false, yes, no, 1, 0\<close>,
  then \<open>detectType\<close> returns \<open>boolean\<close>, also when every member parses as a number
  (as in \<open>["1", "0"]\<close>): the boolean check runs first. In particular
  \<open>detectType(["true", "no", "1"])\<close> is \<open>boolean\<close>.
\<close>

theorem detectType_boolean_first:
  "((\<exists>v \<in> set values. trim v \<noteq> []) \<and>
    (\<forall>v \<in> set values. trim v \<noteq> [] \<longrightarrow> toLowerCase v \<in> set boolValues) \<longrightarrow>
      detectType values = Type_boolean) \<and>
   detectType [''true'', ''no'', ''1''] = Type_boolean \<and>
   list_all (\<lambda>v. \<not> isNaN (ToNumber (JStr v))) [''1'', ''0''] \<and>
   detectType [''1'', ''0''] = Type_boolean"
proof (intro conjI impI)
  assume h: "(\<exists>v \<in> set values. trim v \<noteq> []) \<and>
    (\<forall>v \<in> set values. trim v \<noteq> [] \<longrightarrow> toLowerCase v \<in> set boolValues)"
  then have ne: "filter (\<lambda>v. trim v \<noteq> []) values \<noteq> []"
    by (simp add: filter_empty_conv)
  from h have "list_all (\<lambda>v. toLowerCase v \<in> set boolValues) (filter (\<lambda>v. trim v \<noteq> []) values)"
    by (simp add: list_all_iff)
  with ne show "detectType values = Type_boolean"
    by (simp add: detectType_def Let_def)
next
  show "detectType [''true'', ''no'', ''1''] = Type_boolean"
    by code_simp
next
  show "list_all (\<lambda>v. \<not> isNaN (ToNumber (JStr v))) [''1'', ''0'']"
    by code_simp
next
  show "detectType [''1'', ''0''] = Type_boolean"
    by code_simp
qed

theorem detectType_boolean_first_witness:
  "(\<exists>v \<in> set [''TRUE'', '' '', ''0'']. trim v \<noteq> []) \<and>
   list_all (\<lambda>v. trim v = [] \<or> toLowerCase v \<in> set boolValues) [''TRUE'', '' '', ''0''] \<and>
   detectType [''TRUE'', '' '', ''0''] = Type_boolean"
proof -
  have a: "\<exists>v \<in> set [''TRUE'', '' '', ''0'']. trim v \<noteq> []"
    by code_simp
  have b: "list_all (\<lambda>v. trim v = [] \<or> toLowerCase v \<in> set boolValues) [''TRUE'', '' '', ''0'']"
    by code_simp
  then have c: "\<forall>v \<in> set [''TRUE'', '' '', ''0'']. trim v \<noteq> [] \<longrightarrow> toLowerCase v \<in> set boolValues"
    unfolding list_all_iff by blast
  from a b detectType_boolean_first [of "[''TRUE'', '' '', ''0'']"] c show ?thesis
    by blast
qed

text \<open>A sequence with no non-empty member is classified \<open>string\<close>.\<close>

lemma detectType_all_blank: "list_all (\<lambda>v. trim v = []) values \<Longrightarrow> detectType values = Type_string"
proof -
  assume "list_all (\<lambda>v. trim v = []) values"
  then have "filter (\<lambda>v. trim v \<noteq> []) values = []"
    by (simp add: list_all_iff filter_empty_conv)
  then show ?thesis
    by (simp add: detectType_def)
qed

section \<open>Properties of the CSV parser and serialiser\<close>

subsection \<open>trim\<close>

lemma last_dropWhile: "dropWhile P xs \<noteq> [] \<Longrightarrow> last (dropWhile P xs) = last xs"
  by (induction xs) (auto split: if_splits)

lemma dropWhile_hd_id: "xs = [] \<or> \<not> P (hd xs) \<Longrightarrow> dropWhile P xs = xs"
  by (cases xs) auto

lemma trim_no_leading: "trim s = [] \<or> \<not> isWhiteSpace (hd (trim s))"
proof (cases "trim s = []")
  case True
  then show ?thesis by simp
next
  case False
  let ?u = "dropWhile isWhiteSpace s"
  let ?d = "dropWhile isWhiteSpace (rev ?u)"
  from False have d: "?d \<noteq> []"
    by (simp add: trim_def)
  have u: "?u \<noteq> []"
  proof
    assume a: "?u = []"
    have "?d = dropWhile isWhiteSpace (rev [])"
      by (simp only: a)
    with d show False by simp
  qed
  have "hd (trim s) = last ?d"
    using d by (simp add: trim_def hd_rev)
  also have "\<dots> = last (rev ?u)"
    using d by (rule last_dropWhile)
  also have "\<dots> = hd ?u"
    using u by (simp add: last_rev)
  finally have "hd (trim s) = hd ?u" .
  moreover have "\<not> isWhiteSpace (hd ?u)"
    using u by (rule hd_dropWhile)
  ultimately show ?thesis
    by simp
qed

lemma trim_no_trailing: "trim s = [] \<or> \<not> isWhiteSpace (last (trim s))"
proof (cases "trim s = []")
  case True
  then show ?thesis by simp
next
  case False
  let ?d = "dropWhile isWhiteSpace (rev (dropWhile isWhiteSpace s))"
  from False have d: "?d \<noteq> []"
    by (simp add: trim_def)
  have "last (trim s) = hd ?d"
    using d by (simp add: trim_def last_rev)
  moreover have "\<not> isWhiteSpace (hd ?d)"
    using d by (rule hd_dropWhile)
  ultimately show ?thesis
    by simp
qed

lemma trim_id:
  assumes "s = [] \<or> (\<not> isWhiteSpace (hd s) \<and> \<not> isWhiteSpace (last s))"
  shows "trim s = s"
proof (cases "s = []")
  case True
  then show ?thesis by (simp add: trim_def)
next
  case False
  with assms have h: "\<not> isWhiteSpace (hd s)" and l: "\<not> isWhiteSpace (last s)"
    by auto
  from False h have a: "dropWhile isWhiteSpace s = s"
    by (simp add: dropWhile_hd_id)
  from False l have b: "dropWhile isWhiteSpace (rev s) = rev s"
    by (simp add: dropWhile_hd_id hd_rev)
  show ?thesis
    by (simp add: trim_def a b)
qed

lemma trim_idem: "trim (trim s) = trim s"
  using trim_no_leading [of s] trim_no_trailing [of s] by (auto intro: trim_id)

lemma set_trim: "set (trim s) \<subseteq> set s"
proof -
  have "set (trim s) \<subseteq> set (dropWhile isWhiteSpace s)"
    unfolding trim_def using set_dropWhileD by fastforce
  also have "\<dots> \<subseteq> set s"
    using set_dropWhileD by fastforce
  finally show ?thesis .
qed

lemma trim_Nil: "trim [] = []"
  by (simp add: trim_def)

lemma trim_nonblank:
  assumes "s \<noteq> []" "\<not> isWhiteSpace (hd s)"
  shows "trim s \<noteq> []"
proof -
  from assms have a: "dropWhile isWhiteSpace s = s"
    by (simp add: dropWhile_hd_id)
  have "\<exists>c \<in> set (rev s). \<not> isWhiteSpace c"
    using assms by (cases s) auto
  then have "dropWhile isWhiteSpace (rev s) \<noteq> []"
    by (simp add: dropWhile_eq_Nil_conv)
  then show ?thesis
    by (simp add: trim_def a)
qed

subsection \<open>Splitting into lines\<close>

lemma split_loop_line:
  "LF \<notin> set l \<Longrightarrow> l = [] \<or> last l \<noteq> CR \<Longrightarrow>
   split_loop (l @ LF # rest) cur = (cur @ l) # split_loop rest []"
proof (induction l arbitrary: cur)
  case Nil
  show ?case by simp
next
  case (Cons c l)
  from Cons.prems have c: "c \<noteq> LF" and l: "LF \<notin> set l"
    by auto
  have nocrlf: "\<not> (c = CR \<and> take 1 (l @ LF # rest) = [LF])"
  proof (cases l)
    case Nil
    with Cons.prems show ?thesis by simp
  next
    case (Cons d l')
    with l show ?thesis by auto
  qed
  have tail: "l = [] \<or> last l \<noteq> CR"
    using Cons.prems by (cases l) auto
  have "split_loop ((c # l) @ LF # rest) cur = split_loop (l @ LF # rest) (cur @ [c])"
    using c nocrlf by (simp only: append_Cons split_loop.simps if_False)
  also have "\<dots> = ((cur @ [c]) @ l) # split_loop rest []"
    using l tail by (rule Cons.IH)
  finally show ?case
    by simp
qed

lemma split_loop_last: "LF \<notin> set l \<Longrightarrow> split_loop l cur = [cur @ l]"
proof (induction l arbitrary: cur)
  case Nil
  show ?case by simp
next
  case (Cons c l)
  then have c: "c \<noteq> LF" and l: "LF \<notin> set l"
    by auto
  have "take 1 l \<noteq> [LF]"
    using l by (cases l) auto
  then show ?case
    using c Cons.IH [OF l] by simp
qed

lemma join_Cons: "ys \<noteq> [] \<Longrightarrow> join sep (y # ys) = y @ sep @ join sep ys"
  by (cases ys) simp_all

lemma split_lines_join:
  assumes "ls \<noteq> []" and "\<forall>l \<in> set ls. LF \<notin> set l \<and> (l = [] \<or> last l \<noteq> CR)"
  shows "split_lines (join [LF] ls) = ls"
  using assms
proof (induction ls rule: list_nonempty_induct)
  case (single l)
  then show ?case
    by (simp add: split_lines_def split_loop_last)
next
  case (cons l ls)
  then have l: "LF \<notin> set l" "l = [] \<or> last l \<noteq> CR"
    by auto
  have "split_lines (join [LF] (l # ls)) = split_loop (l @ LF # join [LF] ls) []"
    using cons.hyps by (simp add: split_lines_def join_Cons)
  also have "\<dots> = l # split_loop (join [LF] ls) []"
    using split_loop_line [OF l, of "join [LF] ls" "[]"] by simp
  also have "\<dots> = l # ls"
    using cons by (simp add: split_lines_def)
  finally show ?case .
qed

lemma split_loop_no_LF:
  "LF \<notin> set cur \<Longrightarrow> \<forall>l \<in> set (split_loop s cur). LF \<notin> set l"
  by (induction s cur rule: split_loop.induct) (auto simp: CR_def LF_def)

lemma split_lines_no_LF: "l \<in> set (split_lines s) \<Longrightarrow> LF \<notin> set l"
  using split_loop_no_LF [of "[]" s] by (simp add: split_lines_def)

subsection \<open>parseLine\<close>

lemma parseLine_loop_nonempty: "parseLine_loop l res cur q \<noteq> []"
  by (induction l res cur q rule: parseLine_loop.induct) auto

lemma parseLine_loop_trimmed:
  "\<forall>r \<in> set res. trim r = r \<Longrightarrow> \<forall>c \<in> set (parseLine_loop l res cur q). trim c = c"
  by (induction l res cur q rule: parseLine_loop.induct) (auto simp: trim_idem)

lemma parseLine_loop_chars:
  "\<forall>r \<in> set res. set r \<subseteq> A \<Longrightarrow> set cur \<subseteq> A \<Longrightarrow> set l \<subseteq> A \<Longrightarrow>
   \<forall>c \<in> set (parseLine_loop l res cur q). set c \<subseteq> A"
proof (induction l res cur q rule: parseLine_loop.induct)
  case (1 result current inQuotes)
  then show ?case
    using set_trim [of current] by auto
next
  case (2 c cs result current inQuotes)
  have cs: "set cs \<subseteq> A" and c: "c \<in> A"
    using "2.prems" by auto
  have dr: "set (drop 1 cs) \<subseteq> A"
    using cs set_drop_subset [of 1 cs] by blast
  have tr: "set (trim current) \<subseteq> A"
    using set_trim [of current] "2.prems" by blast
  show ?case
  proof (cases "c = dquote")
    case True
    show ?thesis
    proof (cases "inQuotes \<and> take 1 cs = [dquote]")
      case True
      with \<open>c = dquote\<close> "2.IH"(1) [OF _ True] "2.prems" dr c show ?thesis
        by auto
    next
      case False
      with \<open>c = dquote\<close> "2.IH"(2) [OF _ False] "2.prems" cs show ?thesis
        by auto
    qed
  next
    case False
    show ?thesis
    proof (cases "c = comma \<and> \<not> inQuotes")
      case True
      with False "2.IH"(3) [OF False True] "2.prems" cs tr show ?thesis
        by auto
    next
      case f2: False
      with False "2.IH"(4) [OF False f2] "2.prems" cs c show ?thesis
        by auto
    qed
  qed
qed

lemma parseLine_nonempty: "parseLine l \<noteq> []"
  by (simp add: parseLine_def parseLine_loop_nonempty)

lemma parseLine_trimmed: "c \<in> set (parseLine l) \<Longrightarrow> trim c = c"
  using parseLine_loop_trimmed [of "[]" l "[]" False] by (simp add: parseLine_def)

lemma parseLine_chars: "c \<in> set (parseLine l) \<Longrightarrow> set c \<subseteq> set l"
  using parseLine_loop_chars [of "[]" "set l" "[]" l False] by (simp add: parseLine_def)


lemma replaceQuotes_Nil: "replaceQuotes [] = []"
  by (simp add: replaceQuotes_def)

lemma replaceQuotes_Cons:
  "replaceQuotes (c # s) = (if c = dquote then dquote # dquote # replaceQuotes s else c # replaceQuotes s)"
  by (simp add: replaceQuotes_def)

lemma replaceQuotes_id: "dquote \<notin> set s \<Longrightarrow> replaceQuotes s = s"
  by (induction s) (auto simp: replaceQuotes_Nil replaceQuotes_Cons)

lemma set_replaceQuotes: "set (replaceQuotes s) = set s"
  by (induction s) (auto simp: replaceQuotes_Nil replaceQuotes_Cons)

lemma parseLine_loop_quoted:
  "take 1 rest \<noteq> [dquote] \<Longrightarrow>
   parseLine_loop (replaceQuotes s @ dquote # rest) res cur True = parseLine_loop rest res (cur @ s) False"
proof (induction s arbitrary: cur)
  case Nil
  then show ?case
    by (simp add: replaceQuotes_Nil)
next
  case (Cons c s)
  show ?case
  proof (cases "c = dquote")
    case True
    have "parseLine_loop (replaceQuotes (c # s) @ dquote # rest) res cur True =
          parseLine_loop (replaceQuotes s @ dquote # rest) res (cur @ [dquote]) True"
      using True by (simp add: replaceQuotes_Cons)
    also have "\<dots> = parseLine_loop rest res ((cur @ [dquote]) @ s) False"
      using Cons.prems by (rule Cons.IH)
    finally show ?thesis
      using True by simp
  next
    case False
    have "parseLine_loop (replaceQuotes (c # s) @ dquote # rest) res cur True =
          parseLine_loop (replaceQuotes s @ dquote # rest) res (cur @ [c]) True"
      using False by (simp add: replaceQuotes_Cons)
    also have "\<dots> = parseLine_loop rest res ((cur @ [c]) @ s) False"
      using Cons.prems by (rule Cons.IH)
    finally show ?thesis
      by simp
  qed
qed

lemma parseLine_loop_field:
  "take 1 rest \<noteq> [dquote] \<Longrightarrow>
   parseLine_loop (quoteField v @ rest) res [] False = parseLine_loop rest res v False"
proof -
  assume r: "take 1 rest \<noteq> [dquote]"
  have "parseLine_loop (quoteField v @ rest) res [] False =
        parseLine_loop (replaceQuotes v @ dquote # rest) res [] True"
    by (simp add: quoteField_def)
  also have "\<dots> = parseLine_loop rest res ([] @ v) False"
    using r by (rule parseLine_loop_quoted)
  finally show ?thesis
    by simp
qed

lemma dquote_neq_comma: "dquote \<noteq> comma" "comma \<noteq> dquote"
  by (simp_all add: dquote_def comma_def)

lemma parseLine_loop_fields:
  "vs \<noteq> [] \<Longrightarrow>
   parseLine_loop (join [comma] (map quoteField vs)) res [] False = res @ map trim vs"
proof (induction vs arbitrary: res rule: list_nonempty_induct)
  case (single v)
  have "parseLine_loop (quoteField v @ []) res [] False = parseLine_loop [] res v False"
    by (rule parseLine_loop_field) simp
  then show ?case
    by simp
next
  case (cons v vs)
  let ?rest = "join [comma] (map quoteField vs)"
  have "join [comma] (map quoteField (v # vs)) = quoteField v @ comma # ?rest"
    using cons.hyps by (simp add: join_Cons)
  moreover have "parseLine_loop (quoteField v @ comma # ?rest) res [] False =
                 parseLine_loop (comma # ?rest) res v False"
    by (rule parseLine_loop_field) (simp add: dquote_neq_comma)
  moreover have "parseLine_loop (comma # ?rest) res v False = parseLine_loop ?rest (res @ [trim v]) [] False"
    by (simp add: dquote_neq_comma)
  ultimately show ?case
    by (simp add: cons.IH)
qed

lemma parseLine_fields:
  "vs \<noteq> [] \<Longrightarrow> parseLine (join [comma] (map quoteField vs)) = map trim vs"
  by (simp add: parseLine_def parseLine_loop_fields)

lemma join_quoted_shape:
  "vs \<noteq> [] \<Longrightarrow>
   join [comma] (map quoteField vs) \<noteq> [] \<and> hd (join [comma] (map quoteField vs)) = dquote \<and>
   last (join [comma] (map quoteField vs)) = dquote"
proof (induction vs rule: list_nonempty_induct)
  case (single v)
  show ?case
    by (simp add: quoteField_def)
next
  case (cons v vs)
  then show ?case
    by (simp add: join_Cons quoteField_def)
qed

lemma set_join: "set (join sep xs) \<subseteq> set sep \<union> \<Union> (set ` set xs)"
  by (induction sep xs rule: join.induct) auto

lemma set_quoteField: "set (quoteField v) = insert dquote (set v)"
  by (auto simp: quoteField_def set_replaceQuotes)

lemma set_join_quoted:
  "set (join [comma] (map quoteField vs)) \<subseteq> {dquote, comma} \<union> \<Union> (set ` set vs)"
proof -
  have "set (join [comma] (map quoteField vs)) \<subseteq> set [comma] \<union> \<Union> (set ` set (map quoteField vs))"
    by (rule set_join)
  also have "\<dots> \<subseteq> {dquote, comma} \<union> \<Union> (set ` set vs)"
    by (auto simp: set_quoteField)
  finally show ?thesis .
qed

subsection \<open>Rows\<close>

lemma row_set_keys:
  "map fst (row_set ob k v) =
     (if k = ''__proto__'' \<or> k \<in> set (map fst ob) then map fst ob else map fst ob @ [k])"
  by (simp add: row_set_def update_keys)

lemma row_set_distinct: "distinct (map fst ob) \<Longrightarrow> distinct (map fst (row_set ob k v))"
  by (simp add: row_set_def distinct_update)

lemma map_of_row_set:
  "map_of (row_set ob k v) = (if k = ''__proto__'' then map_of ob else (map_of ob)(k \<mapsto> v))"
  by (simp add: row_set_def update_conv')

lemma forEach_header_keys:
  "map fst ob = map fst ob' \<Longrightarrow>
   map fst (forEach_header hs i vs ob) = map fst (forEach_header hs j ws ob')"
proof (induction hs arbitrary: i j ob ob')
  case Nil
  then show ?case by simp
next
  case (Cons h hs)
  have "map fst (row_set ob h (cellAt vs i)) = map fst (row_set ob' h (cellAt ws j))"
    using Cons.prems by (simp only: row_set_keys)
  then show ?case
    by (simp add: Cons.IH)
qed

lemma forEach_header_distinct:
  "distinct (map fst ob) \<Longrightarrow> distinct (map fst (forEach_header hs i vs ob))"
  by (induction hs arbitrary: i ob) (simp_all add: row_set_distinct)

lemma forEach_header_other:
  "k \<notin> set hs \<Longrightarrow> map_of (forEach_header hs i vs ob) k = map_of ob k"
  by (induction hs arbitrary: i ob) (auto simp: map_of_row_set)

lemma forEach_header_proto:
  "map_of (forEach_header hs i vs ob) ''__proto__'' = map_of ob ''__proto__''"
  by (induction hs arbitrary: i ob) (auto simp: map_of_row_set)

lemma forEach_header_dom:
  "k \<in> set hs \<Longrightarrow> k \<noteq> ''__proto__'' \<Longrightarrow> map_of (forEach_header hs i vs ob) k \<noteq> None"
proof (induction hs arbitrary: i ob)
  case Nil
  then show ?case by simp
next
  case (Cons h hs)
  show ?case
  proof (cases "k \<in> set hs")
    case True
    then show ?thesis
      using Cons.prems(2) by (simp add: Cons.IH)
  next
    case False
    with Cons.prems have "k = h"
      by simp
    with False Cons.prems(2) show ?thesis
      by (simp add: forEach_header_other map_of_row_set)
  qed
qed

lemma cellAt_cases: "cellAt vs i \<in> set vs \<or> cellAt vs i = []"
  by (simp add: cellAt_def)

lemma forEach_header_values:
  "\<forall>v \<in> set vs. P v \<Longrightarrow> P [] \<Longrightarrow> \<forall>k v. map_of ob k = Some v \<longrightarrow> P v \<Longrightarrow>
   map_of (forEach_header hs i vs ob) k = Some v \<Longrightarrow> P v"
proof (induction hs arbitrary: i ob)
  case Nil
  then show ?case by simp
next
  case (Cons h hs)
  have c: "P (cellAt vs i)"
    using cellAt_cases [of vs i] Cons.prems(1,2) by auto
  have inv: "\<forall>k v. map_of (row_set ob h (cellAt vs i)) k = Some v \<longrightarrow> P v"
    using c Cons.prems(3) by (auto simp: map_of_row_set split: if_splits)
  from Cons.prems(4) have "map_of (forEach_header hs (Suc i) vs (row_set ob h (cellAt vs i))) k = Some v"
    by simp
  with Cons.prems(1,2) inv show ?case
    by (rule Cons.IH)
qed

lemma cell_own: "map_of r k = Some v \<Longrightarrow> cell r k = v"
  by (simp add: cell_def row_get_def)

lemma forEach_header_rebuild_map:
  "''__proto__'' \<notin> set hs \<Longrightarrow>
   (\<forall>j < length hs. cellAt ws (i + j) = cell (forEach_header hs i vs ob) (hs ! j)) \<Longrightarrow>
   (\<forall>k. k \<notin> set hs \<longrightarrow> map_of ob' k = map_of ob k) \<Longrightarrow>
   map_of (forEach_header hs i ws ob') = map_of (forEach_header hs i vs ob)"
proof (induction hs arbitrary: i ob ob')
  case Nil
  then show ?case
    by (simp add: fun_eq_iff)
next
  case (Cons h hs)
  let ?R = "forEach_header (h # hs) i vs ob"
  let ?o1 = "row_set ob h (cellAt vs i)"
  let ?o1' = "row_set ob' h (cellAt ws i)"
  have hp: "h \<noteq> ''__proto__''" and np: "''__proto__'' \<notin> set hs"
    using Cons.prems(1) by auto
  have R: "?R = forEach_header hs (Suc i) vs ?o1"
    by simp
  have "0 < length (h # hs)"
    by simp
  from Cons.prems(2) [rule_format, OF this]
  have w0: "cellAt ws i = cell ?R h"
    by (simp only: add_0_right nth_Cons_0)
  have p1: "\<forall>j < length hs. cellAt ws (Suc i + j) = cell (forEach_header hs (Suc i) vs ?o1) (hs ! j)"
  proof (intro allI impI)
    fix j
    assume "j < length hs"
    then have "Suc j < length (h # hs)"
      by simp
    from Cons.prems(2) [rule_format, OF this]
    show "cellAt ws (Suc i + j) = cell (forEach_header hs (Suc i) vs ?o1) (hs ! j)"
      by (simp only: add_Suc_right add_Suc nth_Cons_Suc R)
  qed
  have p2: "\<forall>k. k \<notin> set hs \<longrightarrow> map_of ?o1' k = map_of ?o1 k"
  proof (intro allI impI)
    fix k
    assume k: "k \<notin> set hs"
    show "map_of ?o1' k = map_of ?o1 k"
    proof (cases "k = h")
      case True
      have "map_of ?R h = map_of ?o1 h"
        unfolding R using k True by (simp add: forEach_header_other)
      then have "map_of ?R h = Some (cellAt vs i)"
        using hp by (simp add: map_of_row_set)
      then have "cell ?R h = cellAt vs i"
        by (rule cell_own)
      with w0 True hp show ?thesis
        by (simp add: map_of_row_set)
    next
      case False
      with k Cons.prems(3) show ?thesis
        by (simp add: map_of_row_set)
    qed
  qed
  have "map_of (forEach_header hs (Suc i) ws ?o1') = map_of (forEach_header hs (Suc i) vs ?o1)"
    using np p1 p2 by (rule Cons.IH)
  then show ?case
    by simp
qed

lemma alist_eqI:
  "distinct (map fst xs) \<Longrightarrow> map fst xs = map fst ys \<Longrightarrow> map_of xs = map_of ys \<Longrightarrow> xs = ys"
proof (induction xs arbitrary: ys)
  case Nil
  then show ?case by simp
next
  case (Cons x xs)
  from Cons.prems(2) obtain y ys' where ys: "ys = y # ys'"
    by (cases ys) auto
  with Cons.prems(2) have k: "fst y = fst x" and keys: "map fst xs = map fst ys'"
    by auto
  have eq: "map_of (x # xs) k' = map_of (y # ys') k'" for k'
    using Cons.prems(3) [unfolded ys] by (rule fun_cong)
  from eq [of "fst x"] have v: "snd y = snd x"
    using k by simp
  from k v have xy: "y = x"
    by (simp add: prod_eq_iff)
  have nk: "fst x \<notin> set (map fst xs)"
    using Cons.prems(1) by simp
  have "map_of xs = map_of ys'"
  proof
    fix k'
    show "map_of xs k' = map_of ys' k'"
    proof (cases "k' = fst x")
      case True
      have "map_of xs k' = None"
        using nk True by (simp add: map_of_eq_None_iff)
      moreover have "fst x \<notin> fst ` set ys'"
        using nk keys by (metis set_map)
      then have "map_of ys' k' = None"
        using True by (simp add: map_of_eq_None_iff)
      ultimately show ?thesis by simp
    next
      case False
      from eq [of k'] False xy show ?thesis
        by simp
    qed
  qed
  with Cons.IH [of ys'] Cons.prems(1) keys have "xs = ys'"
    by simp
  with xy ys show ?case
    by simp
qed

lemma forEach_header_rebuild:
  assumes "r = forEach_header hs 0 vs []" and "''__proto__'' \<notin> set hs"
  shows "forEach_header hs 0 (map (cell r) hs) [] = r"
proof -
  let ?ws = "map (cell r) hs"
  have keys: "map fst (forEach_header hs 0 ?ws []) = map fst (forEach_header hs 0 vs [])"
    by (rule forEach_header_keys) simp
  have dist: "distinct (map fst (forEach_header hs 0 ?ws []))"
    by (rule forEach_header_distinct) simp
  have "map_of (forEach_header hs 0 ?ws []) = map_of (forEach_header hs 0 vs [])"
  proof (rule forEach_header_rebuild_map [OF assms(2)])
    show "\<forall>j < length hs. cellAt ?ws (0 + j) = cell (forEach_header hs 0 vs []) (hs ! j)"
      using assms(1) by (simp add: cellAt_def)
    show "\<forall>k. k \<notin> set hs \<longrightarrow> map_of ([] :: string jsobject) k = map_of [] k"
      by simp
  qed
  with dist keys show ?thesis
    unfolding assms(1) by (rule alist_eqI)
qed

subsection \<open>The columns\<close>

lemma collect_map_Inr: "\<forall>x \<in> set xs. f x = Inr (g x) \<Longrightarrow> collect (map f xs) = Inr (map g xs)"
  by (induction xs) simp_all

lemma collect_map_Inl:
  "x \<in> set xs \<Longrightarrow> f x = Inl e \<Longrightarrow> \<forall>y \<in> set xs. f y = Inl e \<or> f y = Inr (g y) \<Longrightarrow>
   collect (map f xs) = Inl e"
proof (induction xs)
  case Nil
  then show ?case by simp
next
  case (Cons y ys)
  from Cons.prems(3) consider "f y = Inl e" | "f y = Inr (g y)"
    by auto
  then show ?case
  proof cases
    case 1
    then show ?thesis by simp
  next
    case 2
    with Cons.prems(1,2) have "x \<in> set ys"
      by auto
    with Cons.IH Cons.prems(2,3) have "collect (map f ys) = Inl e"
      by simp
    with 2 show ?thesis
      by simp
  qed
qed

lemma rowsOf_member:
  "r \<in> set (rowsOf hs ls) \<Longrightarrow> \<exists>l \<in> set ls. r = forEach_header hs 0 (parseLine l) []"
  by (auto simp: rowsOf_def)

lemma sample_own:
  assumes "nm \<in> set hs" "nm \<noteq> ''__proto__''" "r \<in> set (rowsOf hs ls)"
  shows "nullish (row_get r nm) (JStr []) = JStr (cell r nm)"
proof -
  from assms(3) obtain l where "r = forEach_header hs 0 (parseLine l) []"
    using rowsOf_member by blast
  with assms(1,2) obtain v where "map_of r nm = Some v"
    using forEach_header_dom [of nm hs 0 "parseLine l" "[]"] by auto
  then show ?thesis
    by (simp add: cell_def row_get_def)
qed

lemma sample_proto:
  assumes "r \<in> set (rowsOf hs ls)"
  shows "nullish (row_get r ''__proto__'') (JStr []) = JProto"
proof -
  from assms obtain l where "r = forEach_header hs 0 (parseLine l) []"
    using rowsOf_member by blast
  then have "map_of r ''__proto__'' = None"
    by (simp add: forEach_header_proto)
  then show ?thesis
    by (simp add: row_get_def inherited_def)
qed

text \<open>
  The column of one header: type detection throws exactly for the header
  \<open>__proto__\<close> when there is a row to sample.
\<close>

lemma column_of_header:
  assumes "nm \<in> set hs" and "sample = take n (rowsOf hs ls)"
  shows "(let sampleValues = map (\<lambda>r. nullish (row_get r nm) (JStr [])) sample
          in case detectType_on sampleValues of
               Inl e \<Rightarrow> Inl e
             | Inr t \<Rightarrow> Inr \<lparr>name = nm, detectedType = t,
                             sampleValues = take 5 (map ToString sampleValues)\<rparr>)
         = (if nm = ''__proto__'' \<and> sample \<noteq> [] then Inl TypeError
            else Inr \<lparr>name = nm, detectedType = detectType (map (\<lambda>r. cell r nm) sample),
                      sampleValues = take 5 (map (\<lambda>r. cell r nm) sample)\<rparr>)"
proof (cases "nm = ''__proto__''")
  case True
  have mem: "\<And>r. r \<in> set sample \<Longrightarrow> r \<in> set (rowsOf hs ls)"
    unfolding assms(2) by (rule in_set_takeD)
  have "\<And>r. r \<in> set sample \<Longrightarrow> nullish (row_get r nm) (JStr []) = JProto"
    using mem True sample_proto by blast
  then have vals: "map (\<lambda>r. nullish (row_get r nm) (JStr [])) sample = map (\<lambda>r. JProto) sample"
    by simp
  show ?thesis
  proof (cases "sample = []")
    case empty: True
    then show ?thesis
      by (simp add: detectType_on_def)
  next
    case nonempty: False
    then have ns: "\<not> list_all isString (map (\<lambda>r. JProto) sample)"
      by (cases sample) simp_all
    show ?thesis
      unfolding Let_def vals detectType_on_def using ns nonempty True by simp
  qed
next
  case False
  have mem: "\<And>r. r \<in> set sample \<Longrightarrow> r \<in> set (rowsOf hs ls)"
    unfolding assms(2) by (rule in_set_takeD)
  have "\<And>r. r \<in> set sample \<Longrightarrow> nullish (row_get r nm) (JStr []) = JStr (cell r nm)"
    using mem False assms(1) sample_own by blast
  then have vals: "map (\<lambda>r. nullish (row_get r nm) (JStr [])) sample = map (\<lambda>r. JStr (cell r nm)) sample"
    by simp
  have "list_all isString (map (\<lambda>r. JStr (cell r nm)) sample)"
    by (simp add: list_all_iff)
  moreover have "map ToString (map (\<lambda>r. JStr (cell r nm)) sample) = map (\<lambda>r. cell r nm) sample"
    by simp
  ultimately show ?thesis
    using False by (simp only: vals Let_def detectType_on_def if_True if_False sum.case simp_thms)
qed

subsection \<open>The two passes\<close>

lemma parseCSVContent_cases:
  "parseCSVContent content =
     (case nonblankLines content of
        [] \<Rightarrow> Inl EmptyInputError
      | first # rest \<Rightarrow>
          if list_all (\<lambda>h. h = []) (parseLine first) then Inl MissingHeaderError
          else if ''__proto__'' \<in> set (parseLine first) \<and> rest \<noteq> [] then Inl TypeError
          else Inr (assemble (parseLine first) (rowsOf (parseLine first) rest)))"
proof (cases "nonblankLines content")
  case Nil
  then show ?thesis
    by (simp add: parseCSVContent_def nonblankLines_def)
next
  case (Cons first rest)
  define hs where "hs = parseLine first"
  define rs where "rs = rowsOf hs rest"
  define sample where "sample = take (min (length rs) 100) rs"
  define F where "F = (\<lambda>name.
      let sampleValues = map (\<lambda>r. nullish (row_get r name) (JStr [])) sample
      in case detectType_on sampleValues of
           Inl e \<Rightarrow> Inl e
         | Inr t \<Rightarrow> Inr \<lparr>name = name, detectedType = t,
                         sampleValues = take 5 (map ToString sampleValues)\<rparr>)"
  define G where "G = (\<lambda>name.
      \<lparr>name = name, detectedType = detectType (map (\<lambda>r. cell r name) sample),
       sampleValues = take 5 (map (\<lambda>r. cell r name) sample)\<rparr>)"
  have unfold: "parseCSVContent content =
      (if list_all (\<lambda>h. h = []) hs then Inl MissingHeaderError
       else case collect (map F hs) of
              Inl e \<Rightarrow> Inl e
            | Inr cols \<Rightarrow> Inr \<lparr>headers = hs, rows = rs, columns = cols, totalRows = length rs\<rparr>)"
    unfolding parseCSVContent_def Let_def F_def sample_def rs_def rowsOf_def hs_def
    using Cons by (simp add: nonblankLines_def parseLine_nonempty)
  have F: "\<And>nm. nm \<in> set hs \<Longrightarrow>
      F nm = (if nm = ''__proto__'' \<and> sample \<noteq> [] then Inl TypeError else Inr (G nm))"
    unfolding F_def G_def sample_def rs_def by (rule column_of_header) simp_all
  have sample_empty: "sample = [] \<longleftrightarrow> rest = []"
    by (cases rest) (simp_all add: sample_def rs_def rowsOf_def)
  have asm: "assemble hs rs = \<lparr>headers = hs, rows = rs, columns = map G hs, totalRows = length rs\<rparr>"
    by (simp add: assemble_def G_def sample_def Let_def)
  have cols: "collect (map F hs) =
      (if ''__proto__'' \<in> set hs \<and> rest \<noteq> [] then Inl TypeError else Inr (map G hs))"
  proof (cases "''__proto__'' \<in> set hs \<and> rest \<noteq> []")
    case True
    then have "F ''__proto__'' = Inl TypeError"
      using F [of "''__proto__''"] sample_empty by simp
    moreover have "\<forall>y \<in> set hs. F y = Inl TypeError \<or> F y = Inr (G y)"
      using F by auto
    ultimately have "collect (map F hs) = Inl TypeError"
      using True collect_map_Inl [of "''__proto__''" hs F TypeError G] by blast
    with True show ?thesis
      by simp
  next
    case False
    then have "\<forall>x \<in> set hs. F x = Inr (G x)"
      using F sample_empty by auto
    then have "collect (map F hs) = Inr (map G hs)"
      by (rule collect_map_Inr)
    with False show ?thesis
      by simp
  qed
  have "parseCSVContent content =
      (if list_all (\<lambda>h. h = []) hs then Inl MissingHeaderError
       else if ''__proto__'' \<in> set hs \<and> rest \<noteq> [] then Inl TypeError
       else Inr (assemble hs rs))"
    unfolding unfold cols asm by simp
  then show ?thesis
    using Cons by (simp add: hs_def rs_def)
qed

lemma asRecord_get: "ToString (nullish (record_get (asRecord r) c) (JStr [])) = cell r c"
proof -
  have "map_of (props (asRecord r)) c = map_option JStr (map_of r c)"
    by (simp add: asRecord_def map_of_map)
  then have "record_get (asRecord r) c = row_get r c"
    by (cases "map_of r c") (simp_all add: record_get_def row_get_def asRecord_def)
  then show ?thesis
    by (simp add: cell_def)
qed

lemma generateCSVContent_lines:
  "rs \<noteq> [] \<Longrightarrow>
   generateCSVContent (map asRecord rs) (Some hs) = join [LF] (headerLine hs # map (dataLine hs) rs)"
proof -
  have "dataLine hs = (\<lambda>r. join [comma] (map (\<lambda>c. [dquote] @ replaceQuotes (cell r c) @ [dquote]) hs))"
    by (rule ext) (simp add: dataLine_def quoteField_def)
  then show "rs \<noteq> [] \<Longrightarrow> ?thesis"
    by (simp add: generateCSVContent_def headerLine_def asRecord_get Let_def comp_def)
qed

lemma headerLine_quoted:
  "\<forall>h \<in> set hs. dquote \<notin> set h \<Longrightarrow> headerLine hs = join [comma] (map quoteField hs)"
proof -
  assume "\<forall>h \<in> set hs. dquote \<notin> set h"
  then have "map (\<lambda>c. [dquote] @ c @ [dquote]) hs = map quoteField hs"
    by (intro map_cong) (simp_all add: quoteField_def replaceQuotes_id)
  then show ?thesis
    by (simp only: headerLine_def)
qed

lemma LF_chars: "LF \<noteq> dquote" "LF \<noteq> comma" "CR \<noteq> dquote" "\<not> isWhiteSpace dquote"
  by (simp_all add: LF_def CR_def dquote_def comma_def isWhiteSpace_def)

lemma quoted_line_ok:
  assumes "vs \<noteq> []" and "\<forall>v \<in> set vs. LF \<notin> set v"
  defines "l \<equiv> join [comma] (map quoteField vs)"
  shows "LF \<notin> set l \<and> (l = [] \<or> last l \<noteq> CR) \<and> trim l \<noteq> []"
proof -
  have shape: "l \<noteq> [] \<and> hd l = dquote \<and> last l = dquote"
    unfolding l_def using assms(1) by (rule join_quoted_shape)
  have "set l \<subseteq> {dquote, comma} \<union> \<Union> (set ` set vs)"
    unfolding l_def by (rule set_join_quoted)
  then have "LF \<notin> set l"
    using assms(2) LF_chars by auto
  moreover have "last l \<noteq> CR"
    using shape LF_chars by simp
  moreover have "trim l \<noteq> []"
    using shape LF_chars by (intro trim_nonblank) simp_all
  ultimately show ?thesis
    by simp
qed

lemma nonblankLines_join:
  assumes "ls \<noteq> []" and "\<forall>l \<in> set ls. LF \<notin> set l \<and> (l = [] \<or> last l \<noteq> CR) \<and> trim l \<noteq> []"
  shows "nonblankLines (join [LF] ls) = ls"
proof -
  have "split_lines (join [LF] ls) = ls"
    using assms by (intro split_lines_join) auto
  then show ?thesis
    using assms(2) by (simp add: nonblankLines_def filter_id_conv)
qed

lemma nonblankLines_no_LF: "l \<in> set (nonblankLines content) \<Longrightarrow> LF \<notin> set l"
  by (auto simp: nonblankLines_def dest: split_lines_no_LF)

lemma parseLine_cell_ok:
  "LF \<notin> set l \<Longrightarrow> c \<in> set (parseLine l) \<Longrightarrow> LF \<notin> set c \<and> trim c = c"
  using parseLine_chars [of c l] parseLine_trimmed [of c l] by auto

lemma row_cell_ok:
  assumes "LF \<notin> set l" and "k \<in> set hs" and "k \<noteq> ''__proto__''"
  shows "LF \<notin> set (cell (forEach_header hs 0 (parseLine l) []) k) \<and>
         trim (cell (forEach_header hs 0 (parseLine l) []) k) = cell (forEach_header hs 0 (parseLine l) []) k"
proof -
  let ?r = "forEach_header hs 0 (parseLine l) []"
  from assms(2,3) obtain v where v: "map_of ?r k = Some v"
    using forEach_header_dom [of k hs 0 "parseLine l" "[]"] by auto
  have "LF \<notin> set v \<and> trim v = v"
  proof (rule forEach_header_values [where P = "\<lambda>v. LF \<notin> set v \<and> trim v = v", OF _ _ _ v])
    show "\<forall>v \<in> set (parseLine l). LF \<notin> set v \<and> trim v = v"
      using assms(1) parseLine_cell_ok by blast
    show "LF \<notin> set [] \<and> trim [] = []"
      by (simp add: trim_Nil)
    show "\<forall>k v. map_of ([] :: string jsobject) k = Some v \<longrightarrow> LF \<notin> set v \<and> trim v = v"
      by simp
  qed
  then show ?thesis
    using cell_own [OF v] by simp
qed

lemma parse_dataLine:
  assumes "hs \<noteq> []" "''__proto__'' \<notin> set hs" "LF \<notin> set l" "r = forEach_header hs 0 (parseLine l) []"
  shows "forEach_header hs 0 (parseLine (dataLine hs r)) [] = r"
proof -
  have "dataLine hs r = join [comma] (map quoteField (map (cell r) hs))"
    by (simp add: dataLine_def comp_def)
  then have "parseLine (dataLine hs r) = map trim (map (cell r) hs)"
    using assms(1) by (simp only: parseLine_fields map_is_Nil_conv not_False_eq_True)
  also have "\<dots> = map (cell r) hs"
  proof -
    have "\<And>k. k \<in> set hs \<Longrightarrow> trim (cell r k) = cell r k"
      using row_cell_ok [OF assms(3)] assms(2,4) by blast
    then show ?thesis
      by (simp add: map_idI)
  qed
  finally show ?thesis
    using forEach_header_rebuild [OF assms(4) assms(2)] by simp
qed

subsection \<open>Failures of \<open>parseCSVContent\<close>\<close>

lemma header_tokens_empty_iff:
  "list_all (\<lambda>h. trim h = []) (parseLine l) = list_all (\<lambda>h. h = []) (parseLine l)"
proof -
  have "\<And>h. h \<in> set (parseLine l) \<Longrightarrow> (trim h = []) = (h = [])"
    using parseLine_trimmed [of _ l] by simp
  then show ?thesis
    by (simp add: list_all_iff)
qed

text \<open>
  What \<open>parseCSVContent\<close> does on every input: the two errors it throws itself, the
  \<open>TypeError\<close> of type detection when a header is \<open>__proto__\<close> and there is a data
  row, and a result otherwise.
\<close>

lemma parse_outcomes:
  "(parseCSVContent c = Inl EmptyInputError \<longleftrightarrow> nonblankLines c = []) \<and>
   (parseCSVContent c = Inl MissingHeaderError \<longleftrightarrow>
      (\<exists>first rest. nonblankLines c = first # rest \<and>
         (length (parseLine first) = 0 \<or> list_all (\<lambda>h. trim h = []) (parseLine first)))) \<and>
   (parseCSVContent c = Inl TypeError \<longleftrightarrow>
      (\<exists>first rest. nonblankLines c = first # rest \<and>
         \<not> list_all (\<lambda>h. trim h = []) (parseLine first) \<and>
         ''__proto__'' \<in> set (parseLine first) \<and> rest \<noteq> [])) \<and>
   ((\<exists>p. parseCSVContent c = Inr p) \<longleftrightarrow>
      (\<exists>first rest. nonblankLines c = first # rest \<and>
         \<not> list_all (\<lambda>h. trim h = []) (parseLine first) \<and>
         (''__proto__'' \<notin> set (parseLine first) \<or> rest = [])))"
proof (cases "nonblankLines c")
  case Nil
  then show ?thesis
    by (simp add: parseCSVContent_cases)
next
  case (Cons first rest')
  then show ?thesis
    by (auto simp: parseCSVContent_cases header_tokens_empty_iff parseLine_nonempty)
qed

text \<open>
  C6 fails on the code: an input whose header line is \<open>__proto__\<close> and that has a data
  row is none of the two failure cases, and \<open>parseCSVContent\<close> does not return: type
  detection throws a \<open>TypeError\<close>. The input is the two lines \<open>__proto__\<close> and \<open>1\<close>.
\<close>

theorem parse_proto_header_throws:
  "nonblankLines (''__proto__'' @ [LF] @ ''1'') = [''__proto__'', ''1''] \<and>
   parseLine ''__proto__'' = [''__proto__''] \<and>
   forEach_header [''__proto__''] 0 (parseLine ''1'') [] = [] \<and>
   nullish (row_get [] ''__proto__'') (JStr []) = JProto \<and>
   detectType_on [JProto] = Inl TypeError \<and>
   parseCSVContent (''__proto__'' @ [LF] @ ''1'') = Inl TypeError"
  by code_simp

subsection \<open>Round trip\<close>

lemma headers_assemble: "headers (assemble hs rs) = hs"
  by (simp add: assemble_def)

lemma rows_assemble: "rows (assemble hs rs) = rs"
  by (simp add: assemble_def)

lemma parse_success_shape:
  assumes "parseCSVContent content = Inr p"
  obtains first rest where "nonblankLines content = first # rest"
    and "\<not> list_all (\<lambda>h. h = []) (parseLine first)"
    and "''__proto__'' \<notin> set (parseLine first) \<or> rest = []"
    and "p = assemble (parseLine first) (rowsOf (parseLine first) rest)"
proof (cases "nonblankLines content")
  case Nil
  with assms show ?thesis
    by (simp add: parseCSVContent_cases)
next
  case (Cons first rest)
  with assms have "\<not> list_all (\<lambda>h. h = []) (parseLine first)"
    and "''__proto__'' \<notin> set (parseLine first) \<or> rest = []"
    and "p = assemble (parseLine first) (rowsOf (parseLine first) rest)"
    by (auto simp: parseCSVContent_cases split: if_splits)
  with Cons that show ?thesis
    by blast
qed

text \<open>
  C5, amended: for every input on which \<open>parseCSVContent\<close> succeeds with at least one
  data row and with no double quote in a header name, serialising the parsed rows
  with the original header order and parsing the text again gives the same result:
  the same headers and the same rows (and so the same columns and row count).
\<close>

theorem csv_roundtrip:
  assumes "parseCSVContent content = Inr p"
    and "rows p \<noteq> []"
    and "\<forall>h \<in> set (headers p). dquote \<notin> set h"
  shows "parseCSVContent (generateCSVContent (map asRecord (rows p)) (Some (headers p))) = Inr p"
proof -
  from assms(1) obtain first rest where nl: "nonblankLines content = first # rest"
    and ok: "\<not> list_all (\<lambda>h. h = []) (parseLine first)"
    and np0: "''__proto__'' \<notin> set (parseLine first) \<or> rest = []"
    and p: "p = assemble (parseLine first) (rowsOf (parseLine first) rest)"
    by (rule parse_success_shape)
  define hs where "hs = parseLine first"
  define rs where "rs = rowsOf hs rest"
  have hp: "headers p = hs" and rp: "rows p = rs"
    by (simp_all add: p hs_def rs_def headers_assemble rows_assemble)
  have hs_ne: "hs \<noteq> []"
    by (simp add: hs_def parseLine_nonempty)
  have rs_ne: "rs \<noteq> []"
    using assms(2) rp by simp
  then have "rest \<noteq> []"
    by (auto simp: rs_def rowsOf_def)
  with np0 have np: "''__proto__'' \<notin> set hs"
    by (simp add: hs_def)
  have first_LF: "LF \<notin> set first"
    using nl nonblankLines_no_LF [of first content] by simp
  have rest_LF: "\<And>l. l \<in> set rest \<Longrightarrow> LF \<notin> set l"
    using nl nonblankLines_no_LF [of _ content] by simp
  have hs_cells: "\<forall>h \<in> set hs. LF \<notin> set h \<and> trim h = h"
    using first_LF parseLine_cell_ok [of first] by (simp add: hs_def)
  have noq: "\<forall>h \<in> set hs. dquote \<notin> set h"
    using assms(3) hp by simp
  have hl: "headerLine hs = join [comma] (map quoteField hs)"
    using noq by (rule headerLine_quoted)
  have row_src: "\<And>r. r \<in> set rs \<Longrightarrow> \<exists>l \<in> set rest. r = forEach_header hs 0 (parseLine l) []"
    unfolding rs_def by (rule rowsOf_member)
  have line_ok: "\<forall>l \<in> set (headerLine hs # map (dataLine hs) rs).
      LF \<notin> set l \<and> (l = [] \<or> last l \<noteq> CR) \<and> trim l \<noteq> []"
  proof
    fix l
    assume "l \<in> set (headerLine hs # map (dataLine hs) rs)"
    then consider "l = headerLine hs" | r where "r \<in> set rs" "l = dataLine hs r"
      by auto
    then show "LF \<notin> set l \<and> (l = [] \<or> last l \<noteq> CR) \<and> trim l \<noteq> []"
    proof cases
      case 1
      then show ?thesis
        using quoted_line_ok [of hs] hs_ne hs_cells hl by simp
    next
      case 2
      from row_src [OF 2(1)] obtain l0 where l0: "l0 \<in> set rest" "r = forEach_header hs 0 (parseLine l0) []"
        by blast
      have cells: "\<forall>v \<in> set (map (cell r) hs). LF \<notin> set v"
        using row_cell_ok [OF rest_LF [OF l0(1)], of _ hs] l0(2) np by auto
      have "dataLine hs r = join [comma] (map quoteField (map (cell r) hs))"
        by (simp add: dataLine_def comp_def)
      moreover have "map (cell r) hs \<noteq> []"
        using hs_ne by simp
      ultimately show ?thesis
        using cells 2(2) quoted_line_ok [of "map (cell r) hs"] by simp
    qed
  qed
  have gen: "generateCSVContent (map asRecord rs) (Some hs) = join [LF] (headerLine hs # map (dataLine hs) rs)"
    using rs_ne by (rule generateCSVContent_lines)
  have nl2: "nonblankLines (generateCSVContent (map asRecord rs) (Some hs)) =
             headerLine hs # map (dataLine hs) rs"
    unfolding gen using line_ok by (intro nonblankLines_join) simp_all
  have "parseLine (headerLine hs) = map trim hs"
    unfolding hl using hs_ne by (rule parseLine_fields)
  also have "\<dots> = hs"
    using hs_cells by (simp add: map_idI)
  finally have ph: "parseLine (headerLine hs) = hs" .
  have "rowsOf hs (map (dataLine hs) rs) = map (\<lambda>r. forEach_header hs 0 (parseLine (dataLine hs r)) []) rs"
    by (simp add: rowsOf_def comp_def)
  also have "\<dots> = map (\<lambda>r. r) rs"
  proof (rule map_cong [OF refl])
    fix r
    assume "r \<in> set rs"
    from row_src [OF this] obtain l0 where "l0 \<in> set rest" "r = forEach_header hs 0 (parseLine l0) []"
      by blast
    then show "forEach_header hs 0 (parseLine (dataLine hs r)) [] = r"
      using hs_ne np rest_LF parse_dataLine by blast
  qed
  finally have rows2: "rowsOf hs (map (dataLine hs) rs) = rs"
    by simp
  have ok2: "\<not> list_all (\<lambda>h. h = []) hs"
    using ok by (simp add: hs_def)
  have "parseCSVContent (generateCSVContent (map asRecord rs) (Some hs)) = Inr (assemble hs rs)"
    by (simp add: parseCSVContent_cases nl2 ph rows2 ok2 np)
  moreover have "p = assemble hs rs"
    by (simp add: p hs_def rs_def)
  ultimately have final: "parseCSVContent (generateCSVContent (map asRecord rs) (Some hs)) = Inr p"
    by simp
  show ?thesis
    unfolding hp rp by (rule final)
qed

theorem csv_roundtrip_witness:
  "parseCSVContent (''name,note'' @ [LF] @ ''Acme, '' @ [dquote] @ ''x, '' @ [dquote, dquote] @ ''y'' @ [dquote, dquote, dquote])
     = Inr \<lparr>headers = [''name'', ''note''],
            rows = [[(''name'', ''Acme''), (''note'', ''x, '' @ [dquote] @ ''y'' @ [dquote])]],
            columns = [\<lparr>name = ''name'', detectedType = Type_string, sampleValues = [''Acme'']\<rparr>,
                       \<lparr>name = ''note'', detectedType = Type_string,
                        sampleValues = [''x, '' @ [dquote] @ ''y'' @ [dquote]]\<rparr>],
            totalRows = 1\<rparr> \<and>
   list_all (\<lambda>h. dquote \<notin> set h) [''name'', ''note''] \<and>
   generateCSVContent (map asRecord [[(''name'', ''Acme''), (''note'', ''x, '' @ [dquote] @ ''y'' @ [dquote])]])
       (Some [''name'', ''note''])
     = [dquote] @ ''name'' @ [dquote] @ '','' @ [dquote] @ ''note'' @ [dquote] @ [LF] @
       [dquote] @ ''Acme'' @ [dquote] @ '','' @ [dquote] @ ''x, '' @ [dquote, dquote] @ ''y'' @
       [dquote, dquote, dquote] \<and>
   parseCSVContent
     (generateCSVContent (map asRecord [[(''name'', ''Acme''), (''note'', ''x, '' @ [dquote] @ ''y'' @ [dquote])]])
       (Some [''name'', ''note'']))
     = Inr \<lparr>headers = [''name'', ''note''],
            rows = [[(''name'', ''Acme''), (''note'', ''x, '' @ [dquote] @ ''y'' @ [dquote])]],
            columns = [\<lparr>name = ''name'', detectedType = Type_string, sampleValues = [''Acme'']\<rparr>,
                       \<lparr>name = ''note'', detectedType = Type_string,
                        sampleValues = [''x, '' @ [dquote] @ ''y'' @ [dquote]]\<rparr>],
            totalRows = 1\<rparr>"
proof -
  let ?c = "''name,note'' @ [LF] @ ''Acme, '' @ [dquote] @ ''x, '' @ [dquote, dquote] @ ''y'' @ [dquote, dquote, dquote]"
  let ?p = "\<lparr>headers = [''name'', ''note''],
            rows = [[(''name'', ''Acme''), (''note'', ''x, '' @ [dquote] @ ''y'' @ [dquote])]],
            columns = [\<lparr>name = ''name'', detectedType = Type_string, sampleValues = [''Acme'']\<rparr>,
                       \<lparr>name = ''note'', detectedType = Type_string,
                        sampleValues = [''x, '' @ [dquote] @ ''y'' @ [dquote]]\<rparr>],
            totalRows = 1\<rparr>"
  have a: "parseCSVContent ?c = Inr ?p"
    by code_simp
  have b: "rows ?p \<noteq> []"
    by simp
  have c: "\<forall>h \<in> set (headers ?p). dquote \<notin> set h"
    by (simp add: dquote_def)
  have g: "generateCSVContent (map asRecord (rows ?p)) (Some (headers ?p))
     = [dquote] @ ''name'' @ [dquote] @ '','' @ [dquote] @ ''note'' @ [dquote] @ [LF] @
       [dquote] @ ''Acme'' @ [dquote] @ '','' @ [dquote] @ ''x, '' @ [dquote, dquote] @ ''y'' @
       [dquote, dquote, dquote]"
    by code_simp
  from csv_roundtrip [OF a b c] a c g show ?thesis
    by (simp add: list_all_iff)
qed

text \<open>
  C5 as stated fails: a file with a header line and no data row parses, its (empty)
  rows serialise to the empty string, and the empty string does not parse.
\<close>

theorem csv_roundtrip_header_only_counterexample:
  "parseCSVContent ''a,b''
     = Inr \<lparr>headers = [''a'', ''b''], rows = [],
            columns = [\<lparr>name = ''a'', detectedType = Type_string, sampleValues = []\<rparr>,
                       \<lparr>name = ''b'', detectedType = Type_string, sampleValues = []\<rparr>],
            totalRows = 0\<rparr> \<and>
   generateCSVContent (map asRecord []) (Some [''a'', ''b'']) = [] \<and>
   parseCSVContent (generateCSVContent (map asRecord []) (Some [''a'', ''b''])) = Inl EmptyInputError"
  by code_simp

text \<open>With no rows the serialiser gives the empty string, which does not parse.\<close>

lemma csv_roundtrip_no_rows:
  "generateCSVContent (map asRecord []) cs = [] \<and> parseCSVContent [] = Inl EmptyInputError"
  by (simp add: generateCSVContent_def parseCSVContent_def split_lines_def trim_def)

text \<open>
  Header names are written between quotes without doubling the quotes they hold, so
  a header with a double quote does not come back: \<open>a"b\<close> is read again as \<open>ab\<close>.
\<close>

lemma csv_roundtrip_quoted_header_example:
  "parseCSVContent ([dquote] @ ''a'' @ [dquote, dquote] @ ''b'' @ [dquote] @ [LF] @ ''1'')
     = Inr \<lparr>headers = [''a'' @ [dquote] @ ''b''], rows = [[(''a'' @ [dquote] @ ''b'', ''1'')]],
            columns = [\<lparr>name = ''a'' @ [dquote] @ ''b'', detectedType = Type_boolean, sampleValues = [''1'']\<rparr>],
            totalRows = 1\<rparr> \<and>
   generateCSVContent (map asRecord [[(''a'' @ [dquote] @ ''b'', ''1'')]]) (Some [''a'' @ [dquote] @ ''b''])
     = [dquote] @ ''a'' @ [dquote] @ ''b'' @ [dquote] @ [LF] @ [dquote] @ ''1'' @ [dquote] \<and>
   parseCSVContent ([dquote] @ ''a'' @ [dquote] @ ''b'' @ [dquote] @ [LF] @ [dquote] @ ''1'' @ [dquote])
     = Inr \<lparr>headers = [''ab''], rows = [[(''ab'', ''1'')]],
            columns = [\<lparr>name = ''ab'', detectedType = Type_boolean, sampleValues = [''1'']\<rparr>],
            totalRows = 1\<rparr>"
  by code_simp

end
